theory Spec2Isabelle
  imports Main "HOL-Library.Char_ord" "HOL-Library.List_Lexorder" "HOL-Library.Multiset"
    "HOL-Library.Word"
begin

section \<open>PAN_ENGINE: the report pipeline of \<^verbatim>\<open>PAN_ENGINE/app.go\<close>\<close>

text \<open>
  The theory embeds the methods of \<^verbatim>\<open>App\<close> that fetch a report from the
  firewall API, keep it in the session cache, filter it and export it: the endpoint
  registry, \<^verbatim>\<open>GenerateReport\<close>, \<^verbatim>\<open>FilterReportData\<close>,
  \<^verbatim>\<open>generateCSV\<close>, \<^verbatim>\<open>ExportToCSV\<close>, \<^verbatim>\<open>ExportToPDF\<close>,
  \<^verbatim>\<open>BatchExportReports\<close>, the settings loader, and \<^verbatim>\<open>encryptAPIKey\<close> with
  \<^verbatim>\<open>decryptAPIKey\<close>. Go errors are values:
  a function that returns \<^verbatim>\<open>(T, error)\<close> returns \<open>string + T\<close>, the
  left summand holding the text of \<^verbatim>\<open>err.Error()\<close>. What the operating system,
  the network and the Go standard library answer is read from a record of oracles
  (\<open>world\<close>): a theorem holds whatever they answer, unless it names the answers it
  relies on. The goroutines of a batch are a transition system whose next step a schedule
  picks; a run of it ends with the call or with the process. Logging is left out.
\<close>

subsection \<open>Values decoded from JSON\<close>

text \<open>
  \<^verbatim>\<open>encoding/json\<close> decodes into \<^verbatim>\<open>interface{}\<close> the values
  \<^verbatim>\<open>nil\<close>, \<^verbatim>\<open>bool\<close>, \<^verbatim>\<open>float64\<close>, \<^verbatim>\<open>string\<close>,
  \<^verbatim>\<open>[]interface{}\<close> and \<^verbatim>\<open>map[string]interface{}\<close>. A Go map is an
  association list here, read through \<open>map_of\<close>; its key set is the set of first
  components. A \<open>float64\<close> is its 64 bits; no function here computes on it.
\<close>

type_synonym float64 = "64 word"

datatype jvalue =
    JNull
  | JBool bool
  | JNum float64
  | JStr string
  | JArr "jvalue list"
  | JObj "(string \<times> jvalue) list"

type_synonym jobject = "(string \<times> jvalue) list"

type_synonym byte = "8 word"

subsection \<open>Clock readings and their layouts\<close>

text \<open>
  A reading of \<^verbatim>\<open>time.Now()\<close>. The layouts used by the program print whole
  seconds only, so the nanoseconds of a reading never reach a file name.
\<close>

record gotime =
  year :: nat
  month :: nat
  day :: nat
  hour :: nat
  minute :: nat
  second :: nat
  nsec :: nat
  zone :: string

definition digit_char :: "nat \<Rightarrow> char" where
  "digit_char n = ''0123456789'' ! (n mod 10)"

definition pad2 :: "nat \<Rightarrow> string" where
  "pad2 n = [digit_char (n div 10), digit_char n]"

definition pad4 :: "nat \<Rightarrow> string" where
  "pad4 n = [digit_char (n div 1000), digit_char (n div 100), digit_char (n div 10), digit_char n]"

text \<open>The layout \<^verbatim>\<open>"20060102_150405"\<close>.\<close>

definition fmt_stamp :: "gotime \<Rightarrow> string" where
  "fmt_stamp t = pad4 (year t) @ pad2 (month t) @ pad2 (day t) @ ''_'' @
     pad2 (hour t) @ pad2 (minute t) @ pad2 (second t)"

text \<open>The layout \<^verbatim>\<open>"2006-01-02 15:04:05"\<close>.\<close>

definition fmt_datetime :: "gotime \<Rightarrow> string" where
  "fmt_datetime t = pad4 (year t) @ ''-'' @ pad2 (month t) @ ''-'' @ pad2 (day t) @ '' '' @
     pad2 (hour t) @ '':'' @ pad2 (minute t) @ '':'' @ pad2 (second t)"

text \<open>The layout \<^verbatim>\<open>time.RFC3339\<close>; \<open>zone\<close> is the printed offset.\<close>

definition fmt_rfc3339 :: "gotime \<Rightarrow> string" where
  "fmt_rfc3339 t = pad4 (year t) @ ''-'' @ pad2 (month t) @ ''-'' @ pad2 (day t) @ ''T'' @
     pad2 (hour t) @ '':'' @ pad2 (minute t) @ '':'' @ pad2 (second t) @ zone t"

text \<open>The verb \<^verbatim>\<open>%d\<close> on a number that is never negative.\<close>

function show_nat :: "nat \<Rightarrow> string" where
  "show_nat n = (if n < 10 then [digit_char n] else show_nat (n div 10) @ [digit_char n])"
  by pat_completeness auto
termination
  by (relation "measure (\<lambda>n. n)") auto

declare show_nat.simps [simp del]

text \<open>\<^verbatim>\<open>strings.Contains\<close>.\<close>

fun str_contains :: "string \<Rightarrow> string \<Rightarrow> bool" where
  "str_contains [] sub = (sub = [])"
| "str_contains (c # cs) sub = (if take (length sub) (c # cs) = sub then True else str_contains cs sub)"

subsection \<open>The world outside the program\<close>

text \<open>
  What \<^verbatim>\<open>client.Do\<close> and \<^verbatim>\<open>io.ReadAll\<close> give for a request: the request
  could not be built, the round trip failed, or a response came back with its status code
  and either its body or the error of reading it.
\<close>

datatype http_outcome =
    NewRequestFailed string
  | DoFailed string
  | Response nat "string + string"

text \<open>
  The oracles. Each answers for the library or system call named beside it; an
  \<open>option\<close> is the error of a call that returns only an error.
\<close>

record world =
  http_get :: "string \<Rightarrow> string \<Rightarrow> http_outcome"  \<comment> \<open>GET of a URL with the \<^verbatim>\<open>X-PAN-KEY\<close> header\<close>
  json_unmarshal :: "string \<Rightarrow> string + jobject"  \<comment> \<open>\<^verbatim>\<open>json.Unmarshal\<close> into a map\<close>
  path_join :: "string \<Rightarrow> string \<Rightarrow> string"  \<comment> \<open>\<^verbatim>\<open>filepath.Join\<close>\<close>
  path_dir :: "string \<Rightarrow> string"  \<comment> \<open>\<^verbatim>\<open>filepath.Dir\<close>\<close>
  mkdir_all :: "string \<Rightarrow> string option"  \<comment> \<open>\<^verbatim>\<open>os.MkdirAll\<close>\<close>
  create_file :: "string \<Rightarrow> string option"  \<comment> \<open>\<^verbatim>\<open>os.Create\<close>\<close>
  write_bom :: "string \<Rightarrow> string option"  \<comment> \<open>\<^verbatim>\<open>file.Write\<close> of the byte-order mark\<close>
  csv_write_err :: "string \<Rightarrow> nat \<Rightarrow> string option"
    \<comment> \<open>\<^verbatim>\<open>writer.Write\<close> on the file of that path, after that many records\<close>
  pdf_output :: "string \<Rightarrow> string option"  \<comment> \<open>\<^verbatim>\<open>pdf.OutputFileAndClose\<close>\<close>
  format_float :: "float64 \<Rightarrow> string"  \<comment> \<open>\<^verbatim>\<open>strconv.FormatFloat(v, 'f', -1, 64)\<close>\<close>
  sprint_v :: "jvalue \<Rightarrow> string"  \<comment> \<open>\<^verbatim>\<open>fmt.Sprintf("%v", val)\<close>\<close>
  to_lower :: "string \<Rightarrow> string"  \<comment> \<open>\<^verbatim>\<open>strings.ToLower\<close>\<close>

subsection \<open>The application state\<close>

record App =
  apiURL :: string
  apiKey :: string
  reportData :: "string \<rightharpoonup> jvalue"
  settingsPath :: string
  maxRows :: int
  reportFormat :: string
  apiStatus :: string
  lastAPICheck :: "gotime option"

text \<open>\<^verbatim>\<open>NewApp\<close>.\<close>

definition NewApp :: App where
  "NewApp = \<lparr> apiURL = '''', apiKey = '''', reportData = Map.empty,
     settingsPath = ''settings.json'', maxRows = 1000, reportFormat = ''standard'',
     apiStatus = ''unknown'', lastAPICheck = None \<rparr>"

subsection \<open>The endpoint registry\<close>

text \<open>The map literal of \<^verbatim>\<open>getEndpointForReportType\<close>, entry by entry.\<close>

definition endpoints :: "(string \<times> string) list" where
  "endpoints = [
    (''applications'', ''/restapi/v11.0/Objects/Applications''),
    (''appGroups'', ''/restapi/v11.0/Objects/ApplicationGroups''),
    (''appFilters'', ''/restapi/v11.0/Objects/ApplicationFilters''),
    (''services'', ''/restapi/v11.0/Objects/Services''),
    (''serviceGroups'', ''/restapi/v11.0/Objects/ServiceGroups''),
    (''tags'', ''/restapi/v11.0/Objects/Tags''),
    (''hipObjects'', ''/restapi/v11.0/Objects/GlobalProtectHIPObjects''),
    (''hipProfiles'', ''/restapi/v11.0/Objects/GlobalProtectHIPProfiles''),
    (''edl'', ''/restapi/v11.0/Objects/ExternalDynamicLists''),
    (''dataPatterns'', ''/restapi/v11.0/Objects/CustomDataPatterns''),
    (''spywareSigs'', ''/restapi/v11.0/Objects/CustomSpywareSignatures''),
    (''vulnSigs'', ''/restapi/v11.0/Objects/CustomVulnerabilitySignatures''),
    (''urlCategories'', ''/restapi/v11.0/Objects/CustomURLCategories''),
    (''antivirusProfiles'', ''/restapi/v11.0/Objects/AntivirusSecurityProfiles''),
    (''antispywareProfiles'', ''/restapi/v11.0/Objects/AntiSpywareSecurityProfiles''),
    (''vulnProtectionProfiles'', ''/restapi/v11.0/Objects/VulnerabilityProtectionSecurityProfiles''),
    (''urlFilteringProfiles'', ''/restapi/v11.0/Objects/URLFilteringSecurityProfiles''),
    (''fileBlockingProfiles'', ''/restapi/v11.0/Objects/FileBlockingSecurityProfiles''),
    (''wildfireProfiles'', ''/restapi/v11.0/Objects/WildFireAnalysisSecurityProfiles''),
    (''dataFilteringProfiles'', ''/restapi/v11.0/Objects/DataFilteringSecurityProfiles''),
    (''dosProtectionProfiles'', ''/restapi/v11.0/Objects/DoSProtectionSecurityProfiles''),
    (''securityProfileGroups'', ''/restapi/v11.0/Objects/SecurityProfileGroups''),
    (''securityRules'', ''/restapi/v11.0/Policies/SecurityRules''),
    (''natRules'', ''/restapi/v11.0/Policies/NATRules''),
    (''qosRules'', ''/restapi/v11.0/Policies/QoSRules''),
    (''pbfRules'', ''/restapi/v11.0/Policies/PolicyBasedForwardingRules''),
    (''decryptionRules'', ''/restapi/v11.0/Policies/DecryptionRules''),
    (''packetBrokerRules'', ''/restapi/v11.0/Policies/NetworkPacketBrokerRules''),
    (''tunnelInspectionRules'', ''/restapi/v11.0/Policies/TunnelInspectionRules''),
    (''appOverrideRules'', ''/restapi/v11.0/Policies/ApplicationOverrideRules''),
    (''authRules'', ''/restapi/v11.0/Policies/AuthenticationRules''),
    (''dosRules'', ''/restapi/v11.0/Policies/DoSRules''),
    (''sdwanRules'', ''/restapi/v11.0/Policies/SDWANRules''),
    (''ethernetInterfaces'', ''/restapi/v11.0/Network/EthernetInterfaces''),
    (''aeInterfaces'', ''/restapi/v11.0/Network/AggregateEthernetInterfaces''),
    (''vlanInterfaces'', ''/restapi/v11.0/Network/VLANInterfaces''),
    (''loopbackInterfaces'', ''/restapi/v11.0/Network/LoopbackInterfaces''),
    (''tunnelInterfaces'', ''/restapi/v11.0/Network/TunnelIntefaces''),
    (''sdwanInterfaces'', ''/restapi/v11.0/Network/SDWANInterfaces''),
    (''zones'', ''/restapi/v11.0/Network/Zones''),
    (''vlans'', ''/restapi/v11.0/Network/VLANs''),
    (''virtualWires'', ''/restapi/v11.0/Network/VirtualWires''),
    (''virtualRouters'', ''/restapi/v11.0/Network/VirtualRouters''),
    (''gpPortals'', ''/restapi/v11.0/Network/GlobalProtectPortals''),
    (''gpGateways'', ''/restapi/v11.0/Network/GlobalProtectGateways''),
    (''gpAgentTunnels'', ''/restapi/v11.0/Network/GlobalProtectGatewayAgentTunnels''),
    (''gpSatelliteTunnels'', ''/restapi/v11.0/Network/GlobalProtectGatewaySatelliteTunnels''),
    (''gpMdmServers'', ''/restapi/v11.0/Network/GlobalProtectGatewayMDMServers''),
    (''gpClientlessApps'', ''/restapi/v11.0/Network/GlobalProtectClientlessApps''),
    (''gpClientlessAppGroups'', ''/restapi/v11.0/Network/GlobalProtectClientlessAppGroups''),
    (''traffic'', ''/restapi/v11.0/Objects/TrafficLogs''),
    (''threat'', ''/restapi/v11.0/Objects/ThreatLogs''),
    (''url'', ''/restapi/v11.0/Objects/URLFilteringLogs''),
    (''data'', ''/restapi/v11.0/Objects/DataFilteringLogs''),
    (''wildfire'', ''/restapi/v11.0/Objects/WildFireLogs''),
    (''auth'', ''/restapi/v11.0/Objects/AuthenticationLogs''),
    (''system'', ''/restapi/v11.0/Objects/SystemLogs''),
    (''config'', ''/restapi/v11.0/Objects/ConfigLogs''),
    (''correlation'', ''/restapi/v11.0/Objects/CorrelationLogs''),
    (''systemInfo'', ''/api/?type=op&cmd=<show><s><info></info></s></show>''),
    (''interfaceInfo'', ''/api/?type=op&cmd=<show><interface>all</interface></show>''),
    (''systemResources'', ''/api/?type=op&cmd=<show><s><resources></resources></s></show>''),
    (''gpUsers'', ''/api/?type=op&cmd=<show><global-protect-gateway><current-user></current-user></global-protect-gateway></show>''),
    (''activeSessions'', ''/api/?type=op&cmd=<show><session><all></all></session></show>''),
    (''softwareVersion'', ''/api/?type=op&cmd=<show><s><software></software></s></show>'')
  ]"

text \<open>Indexing a Go map with a key it does not hold gives the zero value, the empty string.\<close>

definition getEndpointForReportType :: "string \<Rightarrow> string" where
  "getEndpointForReportType reportType =
     (case map_of endpoints reportType of None \<Rightarrow> '''' | Some path \<Rightarrow> path)"

subsection \<open>Calling the API\<close>

definition callPaloAltoAPI :: "world \<Rightarrow> App \<Rightarrow> string \<Rightarrow> string + jobject" where
  "callPaloAltoAPI w a endpoint =
     (let fullURL = apiURL a @ endpoint in
      case http_get w fullURL (apiKey a) of
        NewRequestFailed e \<Rightarrow> Inl (''error creating request: '' @ e)
      | DoFailed e \<Rightarrow> Inl (''error making request: '' @ e)
      | Response code body \<Rightarrow>
          if code \<noteq> 200 then Inl (''API returned error status: '' @ show_nat code)
          else (case body of
              Inl e \<Rightarrow> Inl (''error reading response: '' @ e)
            | Inr b \<Rightarrow>
                (case json_unmarshal w b of
                   Inr result \<Rightarrow> Inr result
                 | Inl e \<Rightarrow>
                     if str_contains b ''<response'' then Inr [(''result'', JStr b)]
                     else Inl (''error parsing response: '' @ e))))"

text \<open>
  The date range is appended only when both bounds are given. A fetched payload is
  stored under its report type, and under no other key.
\<close>

definition with_date_range :: "string \<Rightarrow> string \<Rightarrow> string \<Rightarrow> string" where
  "with_date_range endpoint startDate endDate =
     (if startDate \<noteq> '''' \<and> endDate \<noteq> '''' then
        endpoint @ (if str_contains endpoint ''?'' then ''&'' else ''?'') @
        ''start-time='' @ startDate @ ''&end-time='' @ endDate
      else endpoint)"

definition GenerateReport ::
  "world \<Rightarrow> App \<Rightarrow> string \<Rightarrow> string \<Rightarrow> string \<Rightarrow> (string + jobject) \<times> App" where
  "GenerateReport w a reportType startDate endDate =
     (if apiURL a = '''' \<or> apiKey a = '''' then
        (Inl ''API URL and Key must be configured first'', a)
      else
        let endpoint = getEndpointForReportType reportType in
        if endpoint = '''' then (Inl (''unknown report type: '' @ reportType), a)
        else
          (case callPaloAltoAPI w a (with_date_range endpoint startDate endDate) of
             Inl e \<Rightarrow> (Inl e, a)
           | Inr data \<Rightarrow> (Inr data, a\<lparr>reportData := (reportData a)(reportType \<mapsto> JObj data)\<rparr>)))"

subsection \<open>Tabular export\<close>

text \<open>
  A call that can panic has three outcomes. A panic unwinds through the deferred
  \<^verbatim>\<open>writer.Flush()\<close> and \<^verbatim>\<open>file.Close()\<close>, so the records written before
  it are in the file.
\<close>

datatype 'a outcome = Ok 'a | Err string | Panic string

text \<open>
  The file an export leaves: the bytes written ahead of the CSV writer, and the records the
  writer has accepted, in order. (The deferred \<^verbatim>\<open>Flush\<close> puts them into the file;
  the program never looks at its error.)
\<close>

record csv_file =
  bom :: "byte list"
  records :: "string list list"

definition utf8_bom :: "byte list" where
  "utf8_bom = [0xEF, 0xBB, 0xBF]"

text \<open>
  \<^verbatim>\<open>formatValueForCSV\<close>. Its \<^verbatim>\<open>time.Time\<close> case has no counterpart: no decoded
  JSON value is one.
\<close>

definition formatValueForCSV :: "world \<Rightarrow> jvalue \<Rightarrow> string" where
  "formatValueForCSV w val =
     (case val of
        JNum v \<Rightarrow> format_float w v
      | JNull \<Rightarrow> ''''
      | JBool v \<Rightarrow> (if v then ''Yes'' else ''No'')
      | _ \<Rightarrow> sprint_v w val)"

text \<open>
  A run of \<^verbatim>\<open>if err := writer.Write(row); err != nil { return err }\<close>: the records
  go out in order and the first failing write ends the run. The result is that error, if
  any, and the records written so far.
\<close>

fun csv_write_all ::
  "world \<Rightarrow> string \<Rightarrow> string list list \<Rightarrow> string list list \<Rightarrow> string option \<times> string list list" where
  "csv_write_all w filePath written [] = (None, written)"
| "csv_write_all w filePath written (row # rest) =
     (case csv_write_err w filePath (length written) of
        Some e \<Rightarrow> (Some e, written)
      | None \<Rightarrow> csv_write_all w filePath (written @ [row]) rest)"

text \<open>The keys of a map, sorted by \<^verbatim>\<open>sort.Strings\<close>: bytewise lexicographic order.\<close>

definition sorted_keys :: "string list \<Rightarrow> string list" where
  "sorted_keys ks = sort (remdups ks)"

text \<open>The keys that the scan over all items puts into \<^verbatim>\<open>headerMap\<close>.\<close>

fun all_item_keys :: "jvalue list \<Rightarrow> string list" where
  "all_item_keys [] = []"
| "all_item_keys (JObj itemMap # rest) = map fst itemMap @ all_item_keys rest"
| "all_item_keys (_ # rest) = all_item_keys rest"

text \<open>One data row: the value of each header, or the empty string where the item lacks it.\<close>

definition row_values :: "world \<Rightarrow> string list \<Rightarrow> jobject \<Rightarrow> string list" where
  "row_values w headers rowData =
     map (\<lambda>header. case map_of rowData header of
            Some val \<Rightarrow> formatValueForCSV w val
          | None \<Rightarrow> '''') headers"

text \<open>
  The loop over the items: it breaks once \<open>rowCount\<close> has reached a positive
  \<open>maxRows\<close>, skips an item that is not a map, and returns on a failing write. The
  result is the error, the records written, and \<open>rowCount\<close>.
\<close>

fun write_data_rows ::
  "world \<Rightarrow> string \<Rightarrow> int \<Rightarrow> string list \<Rightarrow> jvalue list \<Rightarrow> nat \<Rightarrow> string list list \<Rightarrow>
   string option \<times> string list list \<times> nat" where
  "write_data_rows w filePath mx headers [] rowCount written = (None, written, rowCount)"
| "write_data_rows w filePath mx headers (item # rest) rowCount written =
     (if mx > 0 \<and> int rowCount \<ge> mx then (None, written, rowCount)
      else (case item of
          JObj rowData \<Rightarrow>
            (case csv_write_err w filePath (length written) of
               Some e \<Rightarrow> (Some e, written, rowCount)
             | None \<Rightarrow>
                 write_data_rows w filePath mx headers rest (Suc rowCount)
                   (written @ [row_values w headers rowData]))
        | _ \<Rightarrow> write_data_rows w filePath mx headers rest rowCount written))"

text \<open>
  The note row: \<^verbatim>\<open>make([]string, len(headers))\<close> with its first cell set. With no
  header the assignment to index 0 is out of range and panics. The error of writing the
  note is not looked at.
\<close>

definition note_text :: "nat \<Rightarrow> nat \<Rightarrow> string" where
  "note_text rowCount n =
     ''Note: Output limited to '' @ show_nat rowCount @ '' of '' @ show_nat n @ '' rows''"

definition csv_result :: "string option \<Rightarrow> string list list \<Rightarrow> unit outcome \<times> csv_file option" where
  "csv_result e written =
     ((case e of Some m \<Rightarrow> Err m | None \<Rightarrow> Ok ()), Some \<lparr>bom = utf8_bom, records = written\<rparr>)"

text \<open>The branch of \<^verbatim>\<open>generateCSV\<close> for a single map.\<close>

definition generateCSV_map ::
  "world \<Rightarrow> gotime \<Rightarrow> jobject \<Rightarrow> string \<Rightarrow> unit outcome \<times> csv_file option" where
  "generateCSV_map w now v filePath =
     (let headers = sorted_keys (map fst v);
          values = map (\<lambda>header. formatValueForCSV w
                     (case map_of v header of Some val \<Rightarrow> val | None \<Rightarrow> JNull)) headers;
          (e, written) = csv_write_all w filePath []
            [[''Report Information''],
             [''Generated'', fmt_datetime now],
             [''Source'', ''PAN_ENGINE''],
             ['''', ''''],
             headers,
             values]
      in csv_result e written)"

text \<open>
  The branch of \<^verbatim>\<open>generateCSV\<close> for a slice whose first item is the map
  \<open>firstItem\<close>: the metadata block, the header row, the data rows, the note.
\<close>

definition generateCSV_items ::
  "world \<Rightarrow> App \<Rightarrow> gotime \<Rightarrow> jvalue list \<Rightarrow> jobject \<Rightarrow> string \<Rightarrow> unit outcome \<times> csv_file option" where
  "generateCSV_items w a now v firstItem filePath =
     (let headers = sorted_keys
            (if reportFormat a = ''complete'' then all_item_keys v else map fst firstItem);
          (e, written) = csv_write_all w filePath []
            [[''Report Information''],
             [''Generated'', fmt_datetime now],
             [''Source'', ''PAN_ENGINE''],
             [''Total Items'', show_nat (length v)],
             ['''', ''''],
             headers]
      in if e \<noteq> None then csv_result e written
         else
           (let (e', written', rowCount) =
                  write_data_rows w filePath (maxRows a) headers v 0 written
            in if e' \<noteq> None then csv_result e' written'
               else if rowCount < length v then
                 (if headers = [] then
                    (Panic ''index out of range [0] with length 0'',
                     Some \<lparr>bom = utf8_bom, records = written'\<rparr>)
                  else
                    (let noteRow = (replicate (length headers) '''')
                           [0 := note_text rowCount (length v)];
                         (_, written'') = csv_write_all w filePath written' [noteRow]
                     in csv_result None written''))
               else csv_result None written'))"

text \<open>
  The branch of \<^verbatim>\<open>generateCSV\<close> for a slice: an empty slice gets the two
  \<^verbatim>\<open>No Data\<close> records, and a slice whose first item is no map gets nothing.
\<close>

definition generateCSV_slice ::
  "world \<Rightarrow> App \<Rightarrow> gotime \<Rightarrow> jvalue list \<Rightarrow> string \<Rightarrow> unit outcome \<times> csv_file option" where
  "generateCSV_slice w a now v filePath =
     (case v of
        [] \<Rightarrow>
          (let (e, written) = csv_write_all w filePath []
                 [[''No Data'', ''Generated At''],
                  [''No data available'', fmt_datetime now]]
           in csv_result e written)
      | JObj firstItem # _ \<Rightarrow> generateCSV_items w a now v firstItem filePath
      | _ # _ \<Rightarrow> csv_result None [])"

text \<open>
  \<^verbatim>\<open>generateCSV\<close>: the directory, the file, the byte-order mark, then the branch for
  the shape of the payload. Beside the outcome it gives the file it leaves behind
  (\<open>None\<close> when none was created).
\<close>

definition generateCSV ::
  "world \<Rightarrow> App \<Rightarrow> gotime \<Rightarrow> jvalue \<Rightarrow> string \<Rightarrow> unit outcome \<times> csv_file option" where
  "generateCSV w a now data filePath =
     (case mkdir_all w (path_dir w filePath) of
        Some e \<Rightarrow> (Err e, None)
      | None \<Rightarrow>
     (case create_file w filePath of
        Some e \<Rightarrow> (Err e, None)
      | None \<Rightarrow>
     (case write_bom w filePath of
        Some e \<Rightarrow> (Err e, Some \<lparr>bom = [], records = []\<rparr>)
      | None \<Rightarrow>
     (case data of
        JObj v \<Rightarrow> generateCSV_map w now v filePath
      | JArr v \<Rightarrow> generateCSV_slice w a now v filePath
      | _ \<Rightarrow> (Err ''unsupported data type for CSV export'',
                Some \<lparr>bom = utf8_bom, records = []\<rparr>)))))"

subsection \<open>Exporting a cached report\<close>

text \<open>
  \<open>t\<close> is the clock reading that names the file, \<open>now\<close> the later one that
  \<^verbatim>\<open>generateCSV\<close> prints into it. Neither export changes the application state.
\<close>

definition ExportToCSV :: "world \<Rightarrow> App \<Rightarrow> gotime \<Rightarrow> gotime \<Rightarrow> string \<Rightarrow> string outcome" where
  "ExportToCSV w a t now reportType =
     (case reportData a reportType of
        None \<Rightarrow> Err (''no data available for report type: '' @ reportType)
      | Some data \<Rightarrow>
          (let timestamp = fmt_stamp t;
               filename = reportType @ ''_'' @ timestamp @ ''.csv'';
               filepath = path_join w ''Reports'' filename
           in case fst (generateCSV w a now data filepath) of
                Err e \<Rightarrow> Err e
              | Panic m \<Rightarrow> Panic m
              | Ok _ \<Rightarrow> Ok filepath))"

text \<open>
  \<^verbatim>\<open>generatePDF\<close>, as far as its error goes: the page it draws (a header and one
  line per entry of a map payload) is not modelled.
\<close>

definition generatePDF :: "world \<Rightarrow> jvalue \<Rightarrow> string \<Rightarrow> string \<Rightarrow> string option" where
  "generatePDF w data reportType filePath =
     (if data = JNull then Some ''no data provided for PDF generation''
      else pdf_output w filePath)"

definition ExportToPDF :: "world \<Rightarrow> App \<Rightarrow> gotime \<Rightarrow> string \<Rightarrow> string outcome" where
  "ExportToPDF w a t reportType =
     (case reportData a reportType of
        None \<Rightarrow> Err (''no data available for report type: '' @ reportType)
      | Some data \<Rightarrow>
          (let timestamp = fmt_stamp t;
               filename = reportType @ ''_'' @ timestamp @ ''.pdf'';
               filepath = path_join w ''Reports'' filename
           in case generatePDF w data reportType filepath of
                Some e \<Rightarrow> Err e
              | None \<Rightarrow> Ok filepath))"

subsection \<open>Filtering a cached report\<close>

record filter_result =
  fr_result :: jvalue
  fr_count :: nat
  fr_total :: "nat option"
  fr_filtered :: bool

text \<open>
  An item passes when it is a map and every filter with a non-empty value names a field
  of the item whose printed value contains the filter value, both in lower case.
\<close>

definition filter_matches :: "world \<Rightarrow> jobject \<Rightarrow> string \<times> string \<Rightarrow> bool" where
  "filter_matches w itemMap fv =
     (if snd fv = '''' then True
      else (case map_of itemMap (fst fv) of
          None \<Rightarrow> False
        | Some fieldValue \<Rightarrow>
            str_contains (to_lower w (sprint_v w fieldValue)) (to_lower w (snd fv))))"

definition item_matches :: "world \<Rightarrow> (string \<times> string) list \<Rightarrow> jvalue \<Rightarrow> bool" where
  "item_matches w filters item =
     (case item of
        JObj itemMap \<Rightarrow> list_all (filter_matches w itemMap) filters
      | _ \<Rightarrow> False)"

definition FilterReportData ::
  "world \<Rightarrow> App \<Rightarrow> string \<Rightarrow> (string \<times> string) list \<Rightarrow> (string + filter_result) \<times> App" where
  "FilterReportData w a reportType filters =
     (case reportData a reportType of
        None \<Rightarrow> (Inl (''no data available for report type: '' @ reportType), a)
      | Some data \<Rightarrow>
          (case (case data of JObj v \<Rightarrow> Some [JObj v] | JArr v \<Rightarrow> Some v | _ \<Rightarrow> None) of
             None \<Rightarrow> (Inl ''unsupported data format for filtering'', a)
           | Some items \<Rightarrow>
               if filters = [] then
                 (Inr \<lparr>fr_result = data, fr_count = length items, fr_total = None,
                       fr_filtered = False\<rparr>, a)
               else
                 (let filtered = filter (item_matches w filters) items
                  in (Inr \<lparr>fr_result = JArr filtered, fr_count = length filtered,
                            fr_total = Some (length items), fr_filtered = True\<rparr>,
                      a\<lparr>reportData := (reportData a)(reportType @ ''_filtered'' \<mapsto> JArr filtered)\<rparr>))))"

subsection \<open>The result of a batch\<close>

record batch_summary =
  sum_total :: nat
  sum_successful :: nat
  sum_failed :: nat
  sum_format :: string
  sum_date_range :: "string \<times> string"
  sum_timestamp :: string

text \<open>
  The values of the result map: the entry of a report type (its path, or its error), and
  the summary that the same map holds under the key \<^verbatim>\<open>"_summary"\<close>.
\<close>

datatype result_entry =
    ItemSuccess string
  | ItemFailure string
  | RunSummary batch_summary

subsection \<open>The goroutines of a batch\<close>

text \<open>
  How \<^verbatim>\<open>BatchExportReports\<close> runs its tasks. The loop calls \<^verbatim>\<open>wg.Add(1)\<close> and
  starts one goroutine per report type. A goroutine first sends into \<^verbatim>\<open>semaphore\<close>, a
  channel with a buffer of three; it then fetches, exports and records its outcome; on
  every way out its deferred calls run, last registered first: the receive from
  \<^verbatim>\<open>semaphore\<close>, then \<^verbatim>\<open>wg.Done()\<close>. After the loop the caller sits in
  \<^verbatim>\<open>wg.Wait()\<close>.
\<close>

datatype phase =
    Queued      \<comment> \<open>started, before its send into \<^verbatim>\<open>semaphore\<close>\<close>
  | Running     \<comment> \<open>between its send and its deferred receive: fetching, exporting, recording\<close>
  | Released    \<comment> \<open>after its receive, before \<^verbatim>\<open>wg.Done()\<close>\<close>
  | Finished

datatype caller = Dispatching | Waiting | Returned

record pool =
  caller :: caller
  phases :: "phase list"  \<comment> \<open>the goroutines started so far, in the order of the loop\<close>
  slots :: nat            \<comment> \<open>\<^verbatim>\<open>len(semaphore)\<close>\<close>
  wg :: nat               \<comment> \<open>the counter of the \<^verbatim>\<open>WaitGroup\<close>\<close>

definition semaphore_cap :: nat where
  "semaphore_cap = 3"

definition pool_start :: pool where
  "pool_start = \<lparr> caller = Dispatching, phases = [], slots = 0, wg = 0 \<rparr>"

text \<open>
  What the scheduler can let happen next. An event that the state does not allow (a send
  into a full channel, a \<^verbatim>\<open>Wait\<close> on a positive counter) gives \<open>None\<close>: the
  goroutine stays blocked.
\<close>

datatype event =
    Dispatch      \<comment> \<open>one turn of the loop: \<^verbatim>\<open>wg.Add(1)\<close> and \<^verbatim>\<open>go\<close>\<close>
  | LoopEnd       \<comment> \<open>the loop is through; the caller enters \<^verbatim>\<open>wg.Wait()\<close>\<close>
  | Acquire nat   \<comment> \<open>\<^verbatim>\<open>semaphore <- struct{}{}\<close> of the goroutine with that index\<close>
  | Release nat   \<comment> \<open>its deferred \<^verbatim>\<open><-semaphore\<close>\<close>
  | Done nat      \<comment> \<open>its deferred \<^verbatim>\<open>wg.Done()\<close>\<close>
  | WaitReturn    \<comment> \<open>\<^verbatim>\<open>wg.Wait()\<close> returns\<close>

definition fire :: "nat \<Rightarrow> event \<Rightarrow> pool \<Rightarrow> pool option" where
  "fire n e s =
     (case e of
        Dispatch \<Rightarrow>
          if caller s = Dispatching \<and> length (phases s) < n
          then Some (s\<lparr>phases := phases s @ [Queued], wg := wg s + 1\<rparr>) else None
      | LoopEnd \<Rightarrow>
          if caller s = Dispatching \<and> length (phases s) = n
          then Some (s\<lparr>caller := Waiting\<rparr>) else None
      | Acquire i \<Rightarrow>
          if i < length (phases s) \<and> phases s ! i = Queued \<and> slots s < semaphore_cap
          then Some (s\<lparr>phases := (phases s)[i := Running], slots := slots s + 1\<rparr>) else None
      | Release i \<Rightarrow>
          if i < length (phases s) \<and> phases s ! i = Running \<and> 0 < slots s
          then Some (s\<lparr>phases := (phases s)[i := Released], slots := slots s - 1\<rparr>) else None
      | Done i \<Rightarrow>
          if i < length (phases s) \<and> phases s ! i = Released \<and> 0 < wg s
          then Some (s\<lparr>phases := (phases s)[i := Finished], wg := wg s - 1\<rparr>) else None
      | WaitReturn \<Rightarrow>
          if caller s = Waiting \<and> wg s = 0
          then Some (s\<lparr>caller := Returned\<rparr>) else None)"

text \<open>A run of the pool for \<open>n\<close> report types: the events of a schedule, one after the other.\<close>

fun run_pool :: "nat \<Rightarrow> event list \<Rightarrow> pool \<Rightarrow> pool option" where
  "run_pool n [] s = Some s"
| "run_pool n (e # es) s = (case fire n e s of None \<Rightarrow> None | Some s' \<Rightarrow> run_pool n es s')"

text \<open>
  What holds of the pool throughout a run: the channel holds one element per running
  goroutine, the counter counts the goroutines that have not called \<^verbatim>\<open>wg.Done()\<close>,
  and the caller leaves the loop only when all \<open>n\<close> goroutines are started.
\<close>

definition pool_inv :: "nat \<Rightarrow> pool \<Rightarrow> bool" where
  "pool_inv n s \<longleftrightarrow>
     slots s = count (mset (phases s)) Running \<and>
     wg s = count (mset (phases s)) Queued + count (mset (phases s)) Running +
            count (mset (phases s)) Released \<and>
     slots s \<le> semaphore_cap \<and>
     length (phases s) \<le> n \<and>
     (caller s \<noteq> Dispatching \<longrightarrow> length (phases s) = n) \<and>
     (caller s = Returned \<longrightarrow> wg s = 0)"

subsection \<open>Batch export\<close>

text \<open>
  Where a goroutine stands in its body, with the local variables that are live there.
  The body calls \<^verbatim>\<open>GenerateReport\<close>, which assigns to \<^verbatim>\<open>a.reportData\<close> when
  the fetch succeeded; it assigns the same payload once more itself; it calls the export,
  which starts with a lookup in \<^verbatim>\<open>a.reportData\<close>; and it records the outcome between
  \<^verbatim>\<open>mu.Lock()\<close> and \<^verbatim>\<open>mu.Unlock()\<close>. None of the three accesses to
  \<^verbatim>\<open>a.reportData\<close> is made under the mutex.
\<close>

datatype task =
    AtFetch                  \<comment> \<open>before \<^verbatim>\<open>a.GenerateReport(rt, startDate, endDate)\<close>\<close>
  | AtStore jobject          \<comment> \<open>in \<^verbatim>\<open>GenerateReport\<close>, before \<^verbatim>\<open>a.reportData[reportType] = data\<close>\<close>
  | InStore jobject          \<comment> \<open>inside that assignment\<close>
  | AtStoreAgain jobject     \<comment> \<open>back in the body, before \<^verbatim>\<open>a.reportData[rt] = reportData\<close>\<close>
  | InStoreAgain jobject     \<comment> \<open>inside that assignment\<close>
  | AtExport                 \<comment> \<open>before the lookup \<^verbatim>\<open>a.reportData[reportType]\<close> of the export\<close>
  | AtRecordFailure string   \<comment> \<open>before \<^verbatim>\<open>mu.Lock()\<close>, with the error to record\<close>
  | AtRecordSuccess string   \<comment> \<open>before \<^verbatim>\<open>mu.Lock()\<close>, with the path to record\<close>
  | AtExit                   \<comment> \<open>the body is through; the deferred calls are left\<close>

text \<open>
  What ends the process: a panic that no goroutine recovers, or a fatal error of the Go
  runtime.
\<close>

datatype crash = GoPanic string | FatalError string

text \<open>
  The state of a batch: the application state that all goroutines share, the variables of
  the call, the position of every goroutine, and the pool. A Go map is not safe for
  concurrent use. The runtime marks a map for the time an assignment to it is in
  progress (\<open>writing\<close>); an assignment or a lookup that finds the mark set ends the
  process.
\<close>

record batch_state =
  app :: App
  writing :: bool
  results :: "string \<rightharpoonup> result_entry"
  errorCount :: nat
  successCount :: nat
  tasks :: "task list"
  pool_of :: pool

definition batch_start :: "App \<Rightarrow> batch_state" where
  "batch_start a = \<lparr> app = a, writing = False, results = Map.empty, errorCount = 0,
     successCount = 0, tasks = [], pool_of = pool_start \<rparr>"

text \<open>The two halves of an assignment \<^verbatim>\<open>a.reportData[k] = v\<close>.\<close>

definition assign_begin :: "batch_state \<Rightarrow> crash + batch_state" where
  "assign_begin s =
     (if writing s then Inl (FatalError ''concurrent map writes'')
      else Inr (s\<lparr>writing := True\<rparr>))"

definition assign_end :: "string \<Rightarrow> jvalue \<Rightarrow> batch_state \<Rightarrow> batch_state" where
  "assign_end k v s =
     s\<lparr>app := (app s)\<lparr>reportData := (reportData (app s))(k \<mapsto> v)\<rparr>, writing := False\<rparr>"

definition move :: "nat \<Rightarrow> task \<Rightarrow> batch_state \<Rightarrow> batch_state" where
  "move i t s = s\<lparr>tasks := (tasks s)[i := t]\<rparr>"

text \<open>
  The next step of the body of goroutine \<open>i\<close>, whose report type is \<open>rt\<close>.
  \<open>clock i\<close> gives the two clock readings of its export. The fetch reads the URL and
  the key of the state, which no goroutine changes, and asks the network; the export
  after its lookup reads the row limit and the format, and writes files: each is one step.
  The section between \<^verbatim>\<open>mu.Lock()\<close> and \<^verbatim>\<open>mu.Unlock()\<close> is one step, as the
  mutex lets one goroutine at a time into it.
\<close>

definition body_step ::
  "world \<Rightarrow> (nat \<Rightarrow> gotime \<times> gotime) \<Rightarrow> string \<Rightarrow> string \<Rightarrow> string \<Rightarrow> nat \<Rightarrow> string \<Rightarrow>
   batch_state \<Rightarrow> crash + batch_state" where
  "body_step w clock format startDate endDate i rt s =
     (case tasks s ! i of
        AtFetch \<Rightarrow>
          (case fst (GenerateReport w (app s) rt startDate endDate) of
             Inl err \<Rightarrow> Inr (move i (AtRecordFailure err) s)
           | Inr data \<Rightarrow> Inr (move i (AtStore data) s))
      | AtStore data \<Rightarrow> map_sum id (move i (InStore data)) (assign_begin s)
      | InStore data \<Rightarrow> Inr (move i (AtStoreAgain data) (assign_end rt (JObj data) s))
      | AtStoreAgain data \<Rightarrow> map_sum id (move i (InStoreAgain data)) (assign_begin s)
      | InStoreAgain data \<Rightarrow> Inr (move i AtExport (assign_end rt (JObj data) s))
      | AtExport \<Rightarrow>
          if writing s then Inl (FatalError ''concurrent map read and map write'')
          else
            (case (if format = ''csv'' then
                     ExportToCSV w (app s) (fst (clock i)) (snd (clock i)) rt
                   else if format = ''pdf'' then ExportToPDF w (app s) (fst (clock i)) rt
                   else Ok '''') of
               Err exportErr \<Rightarrow> Inr (move i (AtRecordFailure exportErr) s)
             | Ok filePath \<Rightarrow> Inr (move i (AtRecordSuccess filePath) s)
             | Panic m \<Rightarrow> Inl (GoPanic m))
      | AtRecordFailure err \<Rightarrow>
          Inr (move i AtExit
                 (s\<lparr>results := (results s)(rt \<mapsto> ItemFailure err),
                    errorCount := errorCount s + 1\<rparr>))
      | AtRecordSuccess filePath \<Rightarrow>
          Inr (move i AtExit
                 (s\<lparr>results := (results s)(rt \<mapsto> ItemSuccess filePath),
                    successCount := successCount s + 1\<rparr>))
      | AtExit \<Rightarrow> Inr s)"

text \<open>
  What the scheduler can let happen next in a batch: an event of the pool, or the next
  step of the body of a goroutine that holds a slot. The deferred receive of a goroutine
  runs when its body is through. A new goroutine starts at the top of its body. A step
  that the state does not allow gives \<open>None\<close>.
\<close>

datatype step = Sched event | Body nat

definition batch_step ::
  "world \<Rightarrow> (nat \<Rightarrow> gotime \<times> gotime) \<Rightarrow> string list \<Rightarrow> string \<Rightarrow> string \<Rightarrow> string \<Rightarrow>
   step \<Rightarrow> batch_state \<Rightarrow> (crash + batch_state) option" where
  "batch_step w clock reportTypes format startDate endDate st s =
     (case st of
        Body i \<Rightarrow>
          if i < length reportTypes \<and> i < length (tasks s) \<and> i < length (phases (pool_of s)) \<and>
             phases (pool_of s) ! i = Running \<and> tasks s ! i \<noteq> AtExit
          then Some (body_step w clock format startDate endDate i (reportTypes ! i) s)
          else None
      | Sched e \<Rightarrow>
          if (case e of Release i \<Rightarrow> i < length (tasks s) \<and> tasks s ! i = AtExit | _ \<Rightarrow> True)
          then (case fire (length reportTypes) e (pool_of s) of
                  None \<Rightarrow> None
                | Some p \<Rightarrow>
                    Some (Inr (s\<lparr>pool_of := p,
                                 tasks := (if e = Dispatch then tasks s @ [AtFetch]
                                           else tasks s)\<rparr>)))
          else None)"

text \<open>A run of the batch: the steps of a schedule, one after the other, up to a crash.\<close>

fun run_batch ::
  "world \<Rightarrow> (nat \<Rightarrow> gotime \<times> gotime) \<Rightarrow> string list \<Rightarrow> string \<Rightarrow> string \<Rightarrow> string \<Rightarrow>
   step list \<Rightarrow> batch_state \<Rightarrow> (crash + batch_state) option" where
  "run_batch w clock reportTypes format startDate endDate [] s = Some (Inr s)"
| "run_batch w clock reportTypes format startDate endDate (st # sts) s =
     (case batch_step w clock reportTypes format startDate endDate st s of
        None \<Rightarrow> None
      | Some (Inl c) \<Rightarrow> Some (Inl c)
      | Some (Inr s') \<Rightarrow> run_batch w clock reportTypes format startDate endDate sts s')"

text \<open>
  How a call of \<^verbatim>\<open>BatchExportReports\<close> ends: with an error, with the result map (and
  the application state it leaves), or with the process.
\<close>

datatype batch_end =
    BatchErr string
  | BatchOk "string \<rightharpoonup> result_entry" App
  | Died crash

text \<open>
  \<^verbatim>\<open>BatchExportReports\<close> under a schedule. The two checks come before any goroutine
  is started. When \<^verbatim>\<open>wg.Wait()\<close> has returned, the summary is written into the result
  map under \<^verbatim>\<open>"_summary"\<close>; \<open>tEnd\<close> is its clock reading. \<open>None\<close>: the schedule
  does not take the call to its end.
\<close>

definition BatchExportReports ::
  "world \<Rightarrow> App \<Rightarrow> (nat \<Rightarrow> gotime \<times> gotime) \<Rightarrow> gotime \<Rightarrow> step list \<Rightarrow>
   string list \<Rightarrow> string \<Rightarrow> string \<Rightarrow> string \<Rightarrow> batch_end option" where
  "BatchExportReports w a clock tEnd schedule reportTypes format startDate endDate =
     (if reportTypes = [] then Some (BatchErr ''no report types specified'')
      else if format \<noteq> ''csv'' \<and> format \<noteq> ''pdf'' then
        Some (BatchErr (''invalid format: must be 'csv' or 'pdf'' @ [CHR 0x27]))
      else
        (case run_batch w clock reportTypes format startDate endDate schedule (batch_start a) of
           None \<Rightarrow> None
         | Some (Inl c) \<Rightarrow> Some (Died c)
         | Some (Inr s) \<Rightarrow>
             if caller (pool_of s) = Returned then
               Some (BatchOk
                 ((results s)(''_summary'' \<mapsto> RunSummary
                    \<lparr>sum_total = length reportTypes,
                     sum_successful = successCount s,
                     sum_failed = errorCount s,
                     sum_format = format,
                     sum_date_range = (startDate, endDate),
                     sum_timestamp = fmt_rfc3339 tEnd\<rparr>))
                 (app s))
             else None))"

text \<open>
  What holds of a batch throughout a run. A goroutine without a slot is at the top of its
  body or through it; the result map holds an entry for the report type of every
  goroutine that is through its body, and no other; the two counters count these
  goroutines; and a goroutine that is about to export finds a map payload under its
  report type.
\<close>

definition batch_inv :: "string list \<Rightarrow> batch_state \<Rightarrow> bool" where
  "batch_inv reportTypes s \<longleftrightarrow>
     pool_inv (length reportTypes) (pool_of s) \<and>
     length (tasks s) = length (phases (pool_of s)) \<and>
     (\<forall>i < length (tasks s).
        (phases (pool_of s) ! i = Queued \<longrightarrow> tasks s ! i = AtFetch) \<and>
        (phases (pool_of s) ! i = Released \<or> phases (pool_of s) ! i = Finished \<longrightarrow>
           tasks s ! i = AtExit) \<and>
        (tasks s ! i = AtExport \<longrightarrow> (\<exists>d. reportData (app s) (reportTypes ! i) = Some (JObj d)))) \<and>
     (\<forall>k. k \<in> dom (results s) \<longleftrightarrow>
        (\<exists>i < length (tasks s). tasks s ! i = AtExit \<and> reportTypes ! i = k)) \<and>
     (\<forall>k x. results s k \<noteq> Some (RunSummary x)) \<and>
     errorCount s + successCount s = count (mset (tasks s)) AtExit"

subsection \<open>Loading the stored settings\<close>

record Settings =
  APIURL :: string
  EncryptedKey :: string
  MaxRows :: int
  ReportFormat :: string
  Theme :: string
  DateFormat :: string
  DefaultFolder :: string

text \<open>
  The file system and the libraries that \<^verbatim>\<open>loadSettings\<close> and
  \<^verbatim>\<open>decryptAPIKey\<close> call. The cipher key is a constant of the program (the SHA-256
  digest of a fixed string), so \<open>gcm_open\<close> takes the nonce and the ciphertext only.
\<close>

record vault_io =
  stat_not_exist :: "string \<Rightarrow> bool"  \<comment> \<open>\<^verbatim>\<open>os.IsNotExist\<close> of the error of \<^verbatim>\<open>os.Stat\<close>\<close>
  read_file :: "string \<Rightarrow> string + string"  \<comment> \<open>\<^verbatim>\<open>ioutil.ReadFile\<close>\<close>
  unmarshal_settings :: "string \<Rightarrow> string + Settings"  \<comment> \<open>\<^verbatim>\<open>json.Unmarshal\<close> into \<^verbatim>\<open>Settings\<close>\<close>
  base64_decode :: "string \<Rightarrow> string + byte list"  \<comment> \<open>\<^verbatim>\<open>base64.StdEncoding.DecodeString\<close>\<close>
  aes_new_cipher :: "string option"  \<comment> \<open>the error of \<^verbatim>\<open>aes.NewCipher\<close>\<close>
  cipher_new_gcm :: "string option"  \<comment> \<open>the error of \<^verbatim>\<open>cipher.NewGCM\<close>\<close>
  gcm_open :: "byte list \<Rightarrow> byte list \<Rightarrow> string + byte list"  \<comment> \<open>\<^verbatim>\<open>gcm.Open(nil, nonce, ciphertext, nil)\<close>\<close>

text \<open>\<^verbatim>\<open>gcm.NonceSize()\<close> of the standard GCM: 12 bytes.\<close>

definition gcm_nonce_size :: nat where
  "gcm_nonce_size = 12"

text \<open>The conversion \<^verbatim>\<open>string(plaintext)\<close>.\<close>

definition string_of_bytes :: "byte list \<Rightarrow> string" where
  "string_of_bytes bs = map (\<lambda>b. char_of (unat b)) bs"

definition decryptAPIKey :: "vault_io \<Rightarrow> string \<Rightarrow> string + string" where
  "decryptAPIKey io encryptedKey =
     (if encryptedKey = '''' then Inr ''''
      else (case base64_decode io encryptedKey of
          Inl e \<Rightarrow> Inl e
        | Inr data \<Rightarrow>
            (case aes_new_cipher io of
               Some e \<Rightarrow> Inl e
             | None \<Rightarrow>
            (case cipher_new_gcm io of
               Some e \<Rightarrow> Inl e
             | None \<Rightarrow>
                 if length data < gcm_nonce_size then Inl ''ciphertext too short''
                 else (case gcm_open io (take gcm_nonce_size data) (drop gcm_nonce_size data) of
                     Inl e \<Rightarrow> Inl e
                   | Inr plaintext \<Rightarrow> Inr (string_of_bytes plaintext))))))"





text \<open>
  \<^verbatim>\<open>loadSettings\<close> returns its error (\<open>None\<close> for \<^verbatim>\<open>nil\<close>) and the state it leaves.
  The decrypted key is stored only when decryption gave no error; nothing is done with
  the error otherwise.
\<close>

definition loadSettings :: "vault_io \<Rightarrow> App \<Rightarrow> string option \<times> App" where
  "loadSettings io a =
     (if stat_not_exist io (settingsPath a) then (Some ''settings file does not exist'', a)
      else (case read_file io (settingsPath a) of
          Inl e \<Rightarrow> (Some e, a)
        | Inr data \<Rightarrow>
            (case unmarshal_settings io data of
               Inl e \<Rightarrow> (Some e, a)
             | Inr settings \<Rightarrow>
                 (let a1 = a\<lparr>apiURL := APIURL settings\<rparr>;
                      a2 = (if EncryptedKey settings \<noteq> '''' then
                              (case decryptAPIKey io (EncryptedKey settings) of
                                 Inr decryptedKey \<Rightarrow> a1\<lparr>apiKey := decryptedKey\<rparr>
                               | Inl _ \<Rightarrow> a1)
                            else a1);
                      a3 = (if MaxRows settings > 0 then a2\<lparr>maxRows := MaxRows settings\<rparr> else a2);
                      a4 = (if ReportFormat settings \<noteq> '''' then
                              a3\<lparr>reportFormat := ReportFormat settings\<rparr>
                            else a3)
                  in (None, a4)))))"

subsection \<open>A concrete world for the examples\<close>

text \<open>
  One firewall that serves the zones endpoint in the legacy dialect and answers 404
  elsewhere, Unix paths, and a file system that accepts every write. The firewall never
  sends JSON, so \<open>demo_unmarshal\<close> knows the empty object only; the examples hold no
  number, so \<open>float_text\<close> is never asked. \<open>go_sprint\<close> prints as \<^verbatim>\<open>%v\<close> does
  (a string as itself, a slice in brackets, a map by sorted key), and \<open>ascii_lower\<close> is
  \<^verbatim>\<open>strings.ToLower\<close> on ASCII text.
\<close>

definition demo_http :: "string \<Rightarrow> string \<Rightarrow> http_outcome" where
  "demo_http url key =
     (if url = ''https://fw.example/restapi/v11.0/Network/Zones'' \<and> key = ''k3y''
      then Response 200 (Inr ''<response status=ok></response>'')
      else Response 404 (Inr ''''))"

definition demo_unmarshal :: "string \<Rightarrow> string + jobject" where
  "demo_unmarshal b = (if b = ''{}'' then Inr [] else Inl ''invalid character'')"

definition unix_join :: "string \<Rightarrow> string \<Rightarrow> string" where
  "unix_join d f = d @ ''/'' @ f"

definition unix_dir :: "string \<Rightarrow> string" where
  "unix_dir p = (let d = rev (drop 1 (dropWhile (\<lambda>c. c \<noteq> CHR ''/'') (rev p)))
                 in if d = [] then ''.'' else d)"

definition io_ok :: "string \<Rightarrow> string option" where
  "io_ok p = None"

definition csv_ok :: "string \<Rightarrow> nat \<Rightarrow> string option" where
  "csv_ok p n = None"

definition float_text :: "float64 \<Rightarrow> string" where
  "float_text x = ''0''"

fun join_sp :: "string list \<Rightarrow> string" where
  "join_sp [] = []"
| "join_sp [x] = x"
| "join_sp (x # y # zs) = x @ '' '' @ join_sp (y # zs)"

fun go_sprint :: "jvalue \<Rightarrow> string" where
  "go_sprint JNull = ''<nil>''"
| "go_sprint (JBool b) = (if b then ''true'' else ''false'')"
| "go_sprint (JNum x) = float_text x"
| "go_sprint (JStr s) = s"
| "go_sprint (JArr xs) = ''['' @ join_sp (map go_sprint xs) @ '']''"
| "go_sprint (JObj kvs) =
     ''map['' @ join_sp (map (\<lambda>kv. fst kv @ '':'' @ go_sprint (snd kv)) (sort_key fst kvs)) @ '']''"

definition ascii_lower :: "string \<Rightarrow> string" where
  "ascii_lower s = map (\<lambda>c. case map_of (zip ''ABCDEFGHIJKLMNOPQRSTUVWXYZ'' ''abcdefghijklmnopqrstuvwxyz'') c of
        Some d \<Rightarrow> d | None \<Rightarrow> c) s"

definition demo_world :: world where
  "demo_world = \<lparr> http_get = demo_http, json_unmarshal = demo_unmarshal,
     path_join = unix_join, path_dir = unix_dir, mkdir_all = io_ok, create_file = io_ok,
     write_bom = io_ok, csv_write_err = csv_ok, pdf_output = io_ok,
     format_float = float_text, sprint_v = go_sprint, to_lower = ascii_lower \<rparr>"

definition demo_app :: App where
  "demo_app = NewApp\<lparr>apiURL := ''https://fw.example'', apiKey := ''k3y''\<rparr>"

text \<open>A clock reading, and three rows of which the second lacks a field of the others.\<close>

definition demo_time :: gotime where
  "demo_time = \<lparr> year = 2024, month = 1, day = 2, hour = 15, minute = 4, second = 5,
     nsec = 0, zone = ''Z'' \<rparr>"

definition demo_rows :: "jobject list" where
  "demo_rows =
     [[(''name'', JStr ''trust''), (''zone'', JStr ''inside'')],
      [(''name'', JStr ''dmz'')],
      [(''name'', JStr ''untrust''), (''zone'', JStr ''outside''), (''tag'', JBool True)]]"

text \<open>
  A settings store for the examples. \<open>std_base64_decode\<close> reads the standard alphabet
  with padding (RFC 4648), as \<^verbatim>\<open>base64.StdEncoding\<close> does on an input without line
  breaks. The stored key \<^verbatim>\<open>QUJD\<close> decodes to three bytes, fewer than a nonce;
  the forged one decodes to thirty bytes that \<open>gcm_reject\<close>, an \<^verbatim>\<open>Open\<close> that
  finds the tag wrong, refuses.
\<close>

fun index_of :: "'a list \<Rightarrow> 'a \<Rightarrow> nat option" where
  "index_of [] c = None"
| "index_of (x # xs) c = (if x = c then Some 0 else map_option Suc (index_of xs c))"

definition b64_value :: "char \<Rightarrow> nat option" where
  "b64_value c =
     index_of ''ABCDEFGHIJKLMNOPQRSTUVWXYZabcdefghijklmnopqrstuvwxyz0123456789+/'' c"

definition b64_quantum :: "nat \<Rightarrow> nat \<Rightarrow> nat \<Rightarrow> nat \<Rightarrow> byte list" where
  "b64_quantum a b c d =
     (let n = ((a * 64 + b) * 64 + c) * 64 + d
      in [of_nat (n div 65536), of_nat (n div 256 mod 256), of_nat (n mod 256)])"

fun b64_groups :: "string \<Rightarrow> byte list option" where
  "b64_groups [] = Some []"
| "b64_groups (a # b # c # d # rest) =
     (case (b64_value a, b64_value b) of
        (Some va, Some vb) \<Rightarrow>
          (if c = CHR ''='' \<and> d = CHR ''='' \<and> rest = [] then Some (take 1 (b64_quantum va vb 0 0))
           else (case b64_value c of
               None \<Rightarrow> None
             | Some vc \<Rightarrow>
                 (if d = CHR ''='' \<and> rest = [] then Some (take 2 (b64_quantum va vb vc 0))
                  else (case b64_value d of
                      None \<Rightarrow> None
                    | Some vd \<Rightarrow> map_option ((@) (b64_quantum va vb vc vd)) (b64_groups rest)))))
      | _ \<Rightarrow> None)"
| "b64_groups _ = None"

definition std_base64_decode :: "string \<Rightarrow> string + byte list" where
  "std_base64_decode s =
     (case b64_groups s of None \<Rightarrow> Inl ''illegal base64 data'' | Some bs \<Rightarrow> Inr bs)"

definition demo_settings :: Settings where
  "demo_settings = \<lparr> APIURL = ''https://fw.example'', EncryptedKey = ''QUJD'', MaxRows = 500,
     ReportFormat = ''complete'', Theme = ''dark'', DateFormat = ''YYYY-MM-DD'',
     DefaultFolder = ''Reports'' \<rparr>"

definition never_missing :: "string \<Rightarrow> bool" where
  "never_missing p = False"

definition demo_read_file :: "string \<Rightarrow> string + string" where
  "demo_read_file p = Inr ''(the stored settings)''"

definition demo_unmarshal_settings :: "string \<Rightarrow> string + Settings" where
  "demo_unmarshal_settings raw = Inr demo_settings"

definition demo_unmarshal_forged :: "string \<Rightarrow> string + Settings" where
  "demo_unmarshal_forged raw =
     Inr (demo_settings\<lparr>EncryptedKey := ''QUJDREVGR0hJSktMTU5PUFFSU1RVVldYWVowMTIz''\<rparr>)"

definition gcm_reject :: "byte list \<Rightarrow> byte list \<Rightarrow> string + byte list" where
  "gcm_reject nonce ciphertext = Inl ''cipher: message authentication failed''"

definition demo_vault :: vault_io where
  "demo_vault = \<lparr> stat_not_exist = never_missing, read_file = demo_read_file,
     unmarshal_settings = demo_unmarshal_settings, base64_decode = std_base64_decode,
     aes_new_cipher = None, cipher_new_gcm = None, gcm_open = gcm_reject \<rparr>"








text \<open>
  The same world after the firewall has changed its answer, the cache after a fetch in the
  first world, and the cache after a fetch, a filter and a second fetch.
\<close>

definition later_http :: "string \<Rightarrow> string \<Rightarrow> http_outcome" where
  "later_http url key =
     (if url = ''https://fw.example/restapi/v11.0/Network/Zones'' \<and> key = ''k3y''
      then Response 200 (Inr ''<response status=changed></response>'')
      else Response 404 (Inr ''''))"

definition later_world :: world where
  "later_world = demo_world\<lparr>http_get := later_http\<rparr>"

definition fetched_app :: App where
  "fetched_app = snd (GenerateReport demo_world demo_app ''zones'' '''' '''')"

definition refetched_app :: App where
  "refetched_app =
     snd (GenerateReport later_world
            (snd (FilterReportData demo_world fetched_app ''zones'' [(''result'', ''Status=OK'')]))
            ''zones'' '''' '''')"

text \<open>Every export of the batch examples reads the same clock.\<close>

definition demo_clock :: "nat \<Rightarrow> gotime \<times> gotime" where
  "demo_clock i = (demo_time, demo_time)"

text \<open>
  A firewall that serves two endpoints, and three schedules: one for a batch of one report
  type whose fetch fails; one for a batch of two, in which the second goroutine is through
  before the first has fetched; and one for a batch of two in which both goroutines have
  fetched before either assigns to the cache.
\<close>

definition two_http :: "string \<Rightarrow> string \<Rightarrow> http_outcome" where
  "two_http url key =
     (if key = ''k3y'' \<and> (url = ''https://fw.example/restapi/v11.0/Network/Zones'' \<or>
                          url = ''https://fw.example/restapi/v11.0/Objects/Tags'')
      then Response 200 (Inr ''<response status=ok></response>'')
      else Response 404 (Inr ''''))"

definition two_world :: world where
  "two_world = demo_world\<lparr>http_get := two_http\<rparr>"

definition failing_schedule :: "step list" where
  "failing_schedule =
     [Sched Dispatch, Sched LoopEnd, Sched (Acquire 0), Body 0, Body 0,
      Sched (Release 0), Sched (Done 0), Sched WaitReturn]"

definition orderly_schedule :: "step list" where
  "orderly_schedule =
     [Sched Dispatch, Sched Dispatch, Sched LoopEnd, Sched (Acquire 1), Body 1, Body 1,
      Sched (Release 1), Sched (Acquire 0), Sched (Done 1),
      Body 0, Body 0, Body 0, Body 0, Body 0, Body 0, Body 0,
      Sched (Release 0), Sched (Done 0), Sched WaitReturn]"

definition racing_schedule :: "step list" where
  "racing_schedule =
     [Sched Dispatch, Sched Dispatch, Sched LoopEnd, Sched (Acquire 0), Sched (Acquire 1),
      Body 0, Body 1, Body 0, Body 1]"

text \<open>
  A schedule for five report types: all five goroutines are started, three take a slot, and
  each of the other two gets in when one of the three has left.
\<close>

definition demo_schedule :: "event list" where
  "demo_schedule =
     [Dispatch, Dispatch, Acquire 0, Dispatch, Dispatch, Acquire 1, Dispatch, LoopEnd,
      Acquire 4, Release 1, Acquire 2, Done 1, Release 0, Release 4, Acquire 3, Done 4,
      Release 2, Done 0, Release 3, Done 3, Done 2, WaitReturn]"

section \<open>Properties\<close>

subsection \<open>The endpoint registry\<close>

lemma endpoints_distinct: "distinct (map fst endpoints)"
  by (simp add: endpoints_def)

lemma endpoints_nonempty_paths: "(rt, path) \<in> set endpoints \<Longrightarrow> path \<noteq> ''''"
  by (auto simp add: endpoints_def)

text \<open>
  C6. A configured \<^verbatim>\<open>GenerateReport\<close> resolves a report type of the registry to
  exactly its registered path, which is never empty, and calls the API there. For a string
  that is no key of the registry the lookup gives the empty string, and
  \<^verbatim>\<open>GenerateReport\<close> turns that into the error \<^verbatim>\<open>unknown report type\<close>: no request
  is made and the state is unchanged.
\<close>

theorem registry_resolution:
  assumes "apiURL a \<noteq> ''''" and "apiKey a \<noteq> ''''"
  shows "((rt, path) \<in> set endpoints \<longrightarrow>
            getEndpointForReportType rt = path \<and> path \<noteq> '''' \<and>
            GenerateReport w a rt startDate endDate =
              (case callPaloAltoAPI w a (with_date_range path startDate endDate) of
                 Inl e \<Rightarrow> (Inl e, a)
               | Inr data \<Rightarrow> (Inr data, a\<lparr>reportData := (reportData a)(rt \<mapsto> JObj data)\<rparr>))) \<and>
         (rt \<notin> fst ` set endpoints \<longrightarrow>
            getEndpointForReportType rt = '''' \<and>
            GenerateReport w a rt startDate endDate = (Inl (''unknown report type: '' @ rt), a))"
proof (intro conjI impI)
  assume reg: "(rt, path) \<in> set endpoints"
  then have look: "map_of endpoints rt = Some path"
    using endpoints_distinct by simp
  show g: "getEndpointForReportType rt = path"
    by (simp add: getEndpointForReportType_def look)
  show ne: "path \<noteq> ''''"
    using reg by (rule endpoints_nonempty_paths)
  show "GenerateReport w a rt startDate endDate =
              (case callPaloAltoAPI w a (with_date_range path startDate endDate) of
                 Inl e \<Rightarrow> (Inl e, a)
               | Inr data \<Rightarrow> (Inr data, a\<lparr>reportData := (reportData a)(rt \<mapsto> JObj data)\<rparr>))"
    using assms g ne by (simp add: GenerateReport_def)
next
  assume "rt \<notin> fst ` set endpoints"
  then have look: "map_of endpoints rt = None"
    by (simp add: map_of_eq_None_iff)
  show g: "getEndpointForReportType rt = ''''"
    by (simp add: getEndpointForReportType_def look)
  show "GenerateReport w a rt startDate endDate = (Inl (''unknown report type: '' @ rt), a)"
    using assms g by (simp add: GenerateReport_def)
qed

lemma zones_registered: "(''zones'', ''/restapi/v11.0/Network/Zones'') \<in> set endpoints"
  by (simp add: endpoints_def)

lemma bogus_unregistered: "''bogus'' \<notin> fst ` set endpoints"
  by (simp add: endpoints_def)

theorem registry_resolution_witness:
  "apiURL demo_app \<noteq> '''' \<and> apiKey demo_app \<noteq> '''' \<and>
   (''zones'', ''/restapi/v11.0/Network/Zones'') \<in> set endpoints \<and>
   getEndpointForReportType ''zones'' = ''/restapi/v11.0/Network/Zones'' \<and>
   GenerateReport demo_world demo_app ''zones'' '''' '''' =
     (Inr [(''result'', JStr ''<response status=ok></response>'')],
      demo_app\<lparr>reportData := (reportData demo_app)
         (''zones'' \<mapsto> JObj [(''result'', JStr ''<response status=ok></response>'')])\<rparr>) \<and>
   ''bogus'' \<notin> fst ` set endpoints \<and>
   GenerateReport demo_world demo_app ''bogus'' '''' '''' = (Inl ''unknown report type: bogus'', demo_app)"
proof -
  have c: "apiURL demo_app \<noteq> ''''" "apiKey demo_app \<noteq> ''''"
    by (simp_all add: demo_app_def)
  have call: "callPaloAltoAPI demo_world demo_app (with_date_range ''/restapi/v11.0/Network/Zones'' '''' '''')
      = Inr [(''result'', JStr ''<response status=ok></response>'')]"
    by (simp add: callPaloAltoAPI_def with_date_range_def demo_world_def demo_app_def demo_http_def
        demo_unmarshal_def)
  from registry_resolution [OF c, of "''zones''" "''/restapi/v11.0/Network/Zones''" demo_world "''''" "''''"]
    registry_resolution [OF c, of "''bogus''" "''''" demo_world "''''" "''''"]
  show ?thesis
    using c zones_registered bogus_unregistered call by simp
qed

subsection \<open>The report cache\<close>

lemma filtered_key_differs: "rt @ ''_filtered'' \<noteq> rt"
  by simp

lemma GenerateReport_cases:
  "GenerateReport w a rt startDate endDate = (Inr data, a') \<longleftrightarrow>
     apiURL a \<noteq> '''' \<and> apiKey a \<noteq> '''' \<and> getEndpointForReportType rt \<noteq> '''' \<and>
     callPaloAltoAPI w a (with_date_range (getEndpointForReportType rt) startDate endDate) = Inr data \<and>
     a' = a\<lparr>reportData := (reportData a)(rt \<mapsto> JObj data)\<rparr>"
proof (cases "apiURL a = '''' \<or> apiKey a = ''''")
  case True
  then show ?thesis by (auto simp add: GenerateReport_def)
next
  case cfg: False
  show ?thesis
  proof (cases "getEndpointForReportType rt = ''''")
    case True
    with cfg show ?thesis by (simp add: GenerateReport_def)
  next
    case False
    with cfg show ?thesis
      by (cases "callPaloAltoAPI w a (with_date_range (getEndpointForReportType rt) startDate endDate)")
        (auto simp add: GenerateReport_def Let_def)
  qed
qed

text \<open>
  C8, as amended. A successful fetch overwrites the cache entry of its report type and no
  other: the entry \<open>reportType @ ''_filtered''\<close> is after the fetch what it was before, so
  a filtered view derived from the older payload stays in the cache beside the newer
  payload.
\<close>

theorem refresh_keeps_filtered_view:
  assumes "GenerateReport w a rt startDate endDate = (Inr data, a')"
  shows "reportData a' = (reportData a)(rt \<mapsto> JObj data) \<and>
         reportData a' (rt @ ''_filtered'') = reportData a (rt @ ''_filtered'')"
proof -
  from assms have "a' = a\<lparr>reportData := (reportData a)(rt \<mapsto> JObj data)\<rparr>"
    by (simp add: GenerateReport_cases)
  then show ?thesis
    by (simp add: filtered_key_differs)
qed

lemmas fetch_simps = GenerateReport_def getEndpointForReportType_def endpoints_def
  callPaloAltoAPI_def with_date_range_def demo_world_def later_world_def demo_app_def NewApp_def
  demo_http_def later_http_def demo_unmarshal_def

lemma fetched_app_eq:
  "fetched_app = demo_app\<lparr>reportData :=
      [''zones'' \<mapsto> JObj [(''result'', JStr ''<response status=ok></response>'')]]\<rparr>"
  by (simp add: fetched_app_def fetch_simps)

lemma filter_fetched:
  "FilterReportData demo_world fetched_app ''zones'' [(''result'', ''Status=OK'')] =
     (Inr \<lparr>fr_result = JArr [JObj [(''result'', JStr ''<response status=ok></response>'')]],
           fr_count = 1, fr_total = Some 1, fr_filtered = True\<rparr>,
      fetched_app\<lparr>reportData := (reportData fetched_app)(''zones_filtered'' \<mapsto>
         JArr [JObj [(''result'', JStr ''<response status=ok></response>'')]])\<rparr>)"
  by (simp add: fetched_app_eq FilterReportData_def item_matches_def filter_matches_def
      demo_world_def ascii_lower_def Let_def)

lemma refetch:
  "GenerateReport later_world
     (snd (FilterReportData demo_world fetched_app ''zones'' [(''result'', ''Status=OK'')]))
     ''zones'' '''' '''' =
   (Inr [(''result'', JStr ''<response status=changed></response>'')], refetched_app)"
  unfolding refetched_app_def filter_fetched
  by (simp add: fetched_app_eq fetch_simps)

text \<open>
  The claim as stated fails: after a fetch, a filter and a second fetch that brings a
  changed payload, the cache holds the new payload under \<^verbatim>\<open>zones\<close> and, under
  \<^verbatim>\<open>zones_filtered\<close>, the view that was filtered from the old one.
\<close>

theorem stale_filtered_view_counterexample:
  "reportData fetched_app ''zones'' =
     Some (JObj [(''result'', JStr ''<response status=ok></response>'')]) \<and>
   reportData (snd (FilterReportData demo_world fetched_app ''zones'' [(''result'', ''Status=OK'')]))
       ''zones_filtered'' =
     Some (JArr [JObj [(''result'', JStr ''<response status=ok></response>'')]]) \<and>
   GenerateReport later_world
       (snd (FilterReportData demo_world fetched_app ''zones'' [(''result'', ''Status=OK'')]))
       ''zones'' '''' '''' =
     (Inr [(''result'', JStr ''<response status=changed></response>'')], refetched_app) \<and>
   reportData refetched_app ''zones'' =
     Some (JObj [(''result'', JStr ''<response status=changed></response>'')]) \<and>
   reportData refetched_app ''zones_filtered'' =
     Some (JArr [JObj [(''result'', JStr ''<response status=ok></response>'')]])"
proof -
  have r: "refetched_app = snd (GenerateReport later_world
     (snd (FilterReportData demo_world fetched_app ''zones'' [(''result'', ''Status=OK'')]))
     ''zones'' '''' '''')"
    by (simp add: refetched_app_def)
  have "reportData refetched_app ''zones'' =
     Some (JObj [(''result'', JStr ''<response status=changed></response>'')])"
    and "reportData refetched_app ''zones_filtered'' =
     Some (JArr [JObj [(''result'', JStr ''<response status=ok></response>'')]])"
    unfolding r filter_fetched by (simp_all add: fetched_app_eq fetch_simps)
  then show ?thesis
    using refetch unfolding filter_fetched by (simp add: fetched_app_eq)
qed

theorem refresh_keeps_filtered_view_witness:
  "GenerateReport later_world
       (snd (FilterReportData demo_world fetched_app ''zones'' [(''result'', ''Status=OK'')]))
       ''zones'' '''' '''' =
     (Inr [(''result'', JStr ''<response status=changed></response>'')], refetched_app) \<and>
   reportData refetched_app ''zones'' =
     Some (JObj [(''result'', JStr ''<response status=changed></response>'')]) \<and>
   reportData refetched_app (''zones'' @ ''_filtered'') =
     reportData (snd (FilterReportData demo_world fetched_app ''zones'' [(''result'', ''Status=OK'')]))
       (''zones'' @ ''_filtered'') \<and>
   reportData refetched_app (''zones'' @ ''_filtered'') =
     Some (JArr [JObj [(''result'', JStr ''<response status=ok></response>'')]])"
proof -
  from refresh_keeps_filtered_view [OF refetch]
  show ?thesis
    using refetch unfolding filter_fetched by (simp add: fetched_app_eq)
qed

subsection \<open>Tabular export\<close>

lemma csv_write_all_ok:
  "\<forall>n. csv_write_err w p n = None \<Longrightarrow> csv_write_all w p written rows = (None, written @ rows)"
  by (induction rows arbitrary: written) simp_all

lemma write_data_rows_ok:
  assumes "\<forall>n. csv_write_err w p n = None"
  shows "write_data_rows w p mx headers (map JObj objs) rc written =
     (None,
      written @ map (row_values w headers)
        (take (if 0 < mx then nat mx - rc else length objs) objs),
      rc + min (length objs) (if 0 < mx then nat mx - rc else length objs))"
  using assms
proof (induction objs arbitrary: rc written)
  case Nil
  then show ?case by simp
next
  case (Cons m objs)
  show ?case
  proof (cases "0 < mx \<and> mx \<le> int rc")
    case True
    then have "nat mx - rc = 0" by arith
    with True show ?thesis by simp
  next
    case False
    have step: "write_data_rows w p mx headers (map JObj (m # objs)) rc written =
       write_data_rows w p mx headers (map JObj objs) (Suc rc) (written @ [row_values w headers m])"
      using False Cons.prems by auto
    show ?thesis
    proof (cases "0 < mx")
      case True
      with False have "rc < nat mx" by arith
      then have "nat mx - rc = Suc (nat mx - Suc rc)" by arith
      with True show ?thesis
        unfolding step by (simp add: Cons.IH [OF Cons.prems])
    next
      case False
      then show ?thesis
        unfolding step by (simp add: Cons.IH [OF Cons.prems])
    qed
  qed
qed

lemma all_item_keys_objs: "all_item_keys (map JObj objs) = concat (map (map fst) objs)"
  by (induction objs) simp_all

lemma sorted_keys_props:
  "sorted (sorted_keys ks)" "distinct (sorted_keys ks)" "set (sorted_keys ks) = set ks"
  by (simp_all add: sorted_keys_def)

lemma generateCSV_items_objs:
  assumes io: "\<forall>n. csv_write_err w p n = None"
  shows "generateCSV_items w a now (map JObj objs) m p =
    (let headers = sorted_keys (if reportFormat a = ''complete''
                                then concat (map (map fst) objs) else map fst m);
         k = (if 0 < maxRows a then min (nat (maxRows a)) (length objs) else length objs);
         body = [[''Report Information''],
                 [''Generated'', fmt_datetime now],
                 [''Source'', ''PAN_ENGINE''],
                 [''Total Items'', show_nat (length objs)],
                 ['''', ''''],
                 headers] @ map (row_values w headers) (take k objs)
     in if k < length objs then
          (if headers = [] then
             (Panic ''index out of range [0] with length 0'',
              Some \<lparr>bom = utf8_bom, records = body\<rparr>)
           else
             (Ok (), Some \<lparr>bom = utf8_bom, records = body @
                [(replicate (length headers) '''')[0 := note_text k (length objs)]]\<rparr>))
        else (Ok (), Some \<lparr>bom = utf8_bom, records = body\<rparr>))"
proof (cases "0 < maxRows a")
  case True
  then show ?thesis
    unfolding generateCSV_items_def
    by (simp add: csv_write_all_ok [OF io] write_data_rows_ok [OF io] all_item_keys_objs
        csv_result_def Let_def min_def del: csv_write_all.simps write_data_rows.simps)
next
  case False
  then show ?thesis
    unfolding generateCSV_items_def
    by (simp add: csv_write_all_ok [OF io] write_data_rows_ok [OF io] all_item_keys_objs
        csv_result_def Let_def del: csv_write_all.simps write_data_rows.simps)
qed

lemma generateCSV_objs:
  assumes "mkdir_all w (path_dir w filePath) = None"
    and "create_file w filePath = None"
    and "write_bom w filePath = None"
    and "objs \<noteq> []"
  shows "generateCSV w a now (JArr (map JObj objs)) filePath =
     generateCSV_items w a now (map JObj objs) (hd objs) filePath"
proof -
  obtain m rest where "objs = m # rest"
    using assms(4) by (cases objs) auto
  then show ?thesis
    using assms(1-3) by (simp add: generateCSV_def generateCSV_slice_def)
qed

lemma csv_header_row_objs:
  assumes "mkdir_all w (path_dir w filePath) = None"
    and "create_file w filePath = None"
    and "write_bom w filePath = None"
    and "\<forall>n. csv_write_err w filePath n = None"
    and "objs \<noteq> []"
  shows "\<exists>headers rows.
     generateCSV w a now (JArr (map JObj objs)) filePath =
       (if headers = [] \<and> 0 < maxRows a \<and> maxRows a < int (length objs)
        then Panic ''index out of range [0] with length 0'' else Ok (),
        Some \<lparr>bom = utf8_bom, records = rows\<rparr>) \<and>
     take 6 rows =
       [[''Report Information''],
        [''Generated'', fmt_datetime now],
        [''Source'', ''PAN_ENGINE''],
        [''Total Items'', show_nat (length objs)],
        ['''', ''''],
        headers] \<and>
     sorted headers \<and> distinct headers \<and>
     (reportFormat a = ''complete'' \<longrightarrow> set headers = (\<Union>m \<in> set objs. fst ` set m)) \<and>
     (reportFormat a \<noteq> ''complete'' \<longrightarrow> set headers = fst ` set (hd objs)) \<and>
     (\<forall>i. i < length objs \<and> (0 < maxRows a \<longrightarrow> int i < maxRows a) \<longrightarrow>
        rows ! (6 + i) =
          map (\<lambda>h. case map_of (objs ! i) h of
                 Some val \<Rightarrow> formatValueForCSV w val
               | None \<Rightarrow> '''') headers)"
proof -
  define headers where "headers = sorted_keys (if reportFormat a = ''complete''
                                then concat (map (map fst) objs) else map fst (hd objs))"
  define k where "k = (if 0 < maxRows a then min (nat (maxRows a)) (length objs) else length objs)"
  define pre where "pre = [[''Report Information''],
                 [''Generated'', fmt_datetime now],
                 [''Source'', ''PAN_ENGINE''],
                 [''Total Items'', show_nat (length objs)],
                 ['''', ''''],
                 headers]"
  define tail where "tail = (if k < length objs \<and> headers \<noteq> []
      then [(replicate (length headers) '''')[0 := note_text k (length objs)]] else [])"
  define rows where "rows = pre @ map (row_values w headers) (take k objs) @ tail"
  have trunc: "k < length objs \<longleftrightarrow> 0 < maxRows a \<and> maxRows a < int (length objs)"
    unfolding k_def by auto
  have run: "generateCSV w a now (JArr (map JObj objs)) filePath =
       (if headers = [] \<and> 0 < maxRows a \<and> maxRows a < int (length objs)
        then Panic ''index out of range [0] with length 0'' else Ok (),
        Some \<lparr>bom = utf8_bom, records = rows\<rparr>)"
    unfolding generateCSV_objs [OF assms(1-3,5)] generateCSV_items_objs [OF assms(4)]
    using trunc
    by (simp add: Let_def headers_def [symmetric] k_def [symmetric] rows_def tail_def pre_def)
  have six: "take 6 rows = pre"
    by (simp add: rows_def pre_def)
  have cells: "rows ! (6 + i) =
          map (\<lambda>h. case map_of (objs ! i) h of
                 Some val \<Rightarrow> formatValueForCSV w val
               | None \<Rightarrow> '''') headers"
    if "i < length objs" and "0 < maxRows a \<longrightarrow> int i < maxRows a" for i
  proof -
    have ik: "i < k"
      using that unfolding k_def by auto
    have "length pre = 6"
      by (simp add: pre_def)
    then have "rows ! (6 + i) = (map (row_values w headers) (take k objs) @ tail) ! i"
      unfolding rows_def by (metis nth_append_length_plus)
    also have "\<dots> = row_values w headers (objs ! i)"
      using ik that(1) by (simp add: nth_append)
    finally show ?thesis
      by (simp add: row_values_def)
  qed
  have s1: "sorted headers" and s2: "distinct headers"
    by (simp_all add: headers_def sorted_keys_props)
  have c: "reportFormat a = ''complete'' \<longrightarrow> set headers = (\<Union>m \<in> set objs. fst ` set m)"
    by (auto simp add: headers_def sorted_keys_props)
  have s: "reportFormat a \<noteq> ''complete'' \<longrightarrow> set headers = fst ` set (hd objs)"
    by (auto simp add: headers_def sorted_keys_props)
  have cells': "\<forall>i. i < length objs \<and> (0 < maxRows a \<longrightarrow> int i < maxRows a) \<longrightarrow>
        rows ! (6 + i) =
          map (\<lambda>h. case map_of (objs ! i) h of
                 Some val \<Rightarrow> formatValueForCSV w val
               | None \<Rightarrow> '''') headers"
    using cells by blast
  show ?thesis
    by (rule exI [of _ headers], rule exI [of _ rows])
      (intro conjI run six [unfolded pre_def] s1 s2 c s cells')
qed

text \<open>
  C4. Where the directory, the file and every write succeed, the export of a sequence of
  mappings, \<open>first\<close> and then \<open>rest\<close>, leaves a file whose sixth record is the header
  row: sorted, without repetition, holding the fields of all entries when the mode is
  \<^verbatim>\<open>complete\<close> and the fields of the first entry when it is \<^verbatim>\<open>standard\<close> (or
  anything but \<^verbatim>\<open>complete\<close>). The record of entry \<open>i\<close>, for the entries within
  \<open>maxRows\<close>, gives under each header the formatted value of that field, and the empty
  string where the entry has no such field. The export returns no error; it ends in a
  panic only when there is no header at all and the sequence is longer than \<open>maxRows\<close>.
\<close>

theorem csv_header_modes:
  assumes "mkdir_all w (path_dir w filePath) = None"
    and "create_file w filePath = None"
    and "write_bom w filePath = None"
    and "\<forall>n. csv_write_err w filePath n = None"
  shows "\<exists>headers rows.
     generateCSV w a now (JArr (map JObj (first # rest))) filePath =
       (if headers = [] \<and> 0 < maxRows a \<and> maxRows a < int (length (first # rest))
        then Panic ''index out of range [0] with length 0'' else Ok (),
        Some \<lparr>bom = utf8_bom, records = rows\<rparr>) \<and>
     take 6 rows =
       [[''Report Information''],
        [''Generated'', fmt_datetime now],
        [''Source'', ''PAN_ENGINE''],
        [''Total Items'', show_nat (length (first # rest))],
        ['''', ''''],
        headers] \<and>
     sorted headers \<and> distinct headers \<and>
     (reportFormat a = ''complete'' \<longrightarrow>
        set headers = (\<Union>m \<in> set (first # rest). fst ` set m)) \<and>
     (reportFormat a = ''standard'' \<longrightarrow> set headers = fst ` set first) \<and>
     (reportFormat a \<noteq> ''complete'' \<longrightarrow> set headers = fst ` set first) \<and>
     (\<forall>i. i < length (first # rest) \<and> (0 < maxRows a \<longrightarrow> int i < maxRows a) \<longrightarrow>
        rows ! (6 + i) =
          map (\<lambda>h. case map_of ((first # rest) ! i) h of
                 Some val \<Rightarrow> formatValueForCSV w val
               | None \<Rightarrow> '''') headers)"
proof -
  have ne: "first # rest \<noteq> []"
    by simp
  from csv_header_row_objs [OF assms ne, of a now]
  obtain headers rows where
    run: "generateCSV w a now (JArr (map JObj (first # rest))) filePath =
       (if headers = [] \<and> 0 < maxRows a \<and> maxRows a < int (length (first # rest))
        then Panic ''index out of range [0] with length 0'' else Ok (),
        Some \<lparr>bom = utf8_bom, records = rows\<rparr>)"
    and six: "take 6 rows =
       [[''Report Information''],
        [''Generated'', fmt_datetime now],
        [''Source'', ''PAN_ENGINE''],
        [''Total Items'', show_nat (length (first # rest))],
        ['''', ''''],
        headers]"
    and s: "sorted headers" "distinct headers"
    and c: "reportFormat a = ''complete'' \<longrightarrow>
        set headers = (\<Union>m \<in> set (first # rest). fst ` set m)"
    and f: "reportFormat a \<noteq> ''complete'' \<longrightarrow> set headers = fst ` set (hd (first # rest))"
    and cells: "\<forall>i. i < length (first # rest) \<and> (0 < maxRows a \<longrightarrow> int i < maxRows a) \<longrightarrow>
        rows ! (6 + i) =
          map (\<lambda>h. case map_of ((first # rest) ! i) h of
                 Some val \<Rightarrow> formatValueForCSV w val
               | None \<Rightarrow> '''') headers"
    by blast
  from f have f': "reportFormat a \<noteq> ''complete'' \<longrightarrow> set headers = fst ` set first"
    by simp
  then have f'': "reportFormat a = ''standard'' \<longrightarrow> set headers = fst ` set first"
    by simp
  show ?thesis
    by (rule exI [of _ headers], rule exI [of _ rows])
      (intro conjI run six s c f'' f' cells)
qed

lemmas demo_simps = demo_world_def demo_app_def NewApp_def demo_time_def demo_rows_def
  io_ok_def csv_ok_def unix_join_def unix_dir_def

lemmas csv_simps = generateCSV_def generateCSV_slice_def generateCSV_items_def generateCSV_map_def
  csv_result_def sorted_keys_def row_values_def formatValueForCSV_def note_text_def
  fmt_datetime_def pad2_def pad4_def digit_char_def show_nat.simps

lemma csv_standard_example:
  "generateCSV demo_world demo_app demo_time (JArr (map JObj demo_rows)) ''Reports/zones.csv'' =
     (Ok (), Some \<lparr>bom = utf8_bom, records =
        [[''Report Information''], [''Generated'', ''2024-01-02 15:04:05''],
         [''Source'', ''PAN_ENGINE''], [''Total Items'', ''3''], ['''', ''''],
         [''name'', ''zone''],
         [''trust'', ''inside''], [''dmz'', ''''], [''untrust'', ''outside'']]\<rparr>)"
  by (simp add: demo_simps csv_simps)

lemma csv_complete_example:
  "generateCSV demo_world (demo_app\<lparr>reportFormat := ''complete''\<rparr>) demo_time
       (JArr (map JObj demo_rows)) ''Reports/zones.csv'' =
     (Ok (), Some \<lparr>bom = utf8_bom, records =
        [[''Report Information''], [''Generated'', ''2024-01-02 15:04:05''],
         [''Source'', ''PAN_ENGINE''], [''Total Items'', ''3''], ['''', ''''],
         [''name'', ''tag'', ''zone''],
         [''trust'', '''', ''inside''], [''dmz'', '''', ''''], [''untrust'', ''Yes'', ''outside'']]\<rparr>)"
  by (simp add: demo_simps csv_simps)

theorem csv_header_modes_witness:
  "mkdir_all demo_world (path_dir demo_world ''Reports/zones.csv'') = None \<and>
   create_file demo_world ''Reports/zones.csv'' = None \<and>
   write_bom demo_world ''Reports/zones.csv'' = None \<and>
   (\<forall>n. csv_write_err demo_world ''Reports/zones.csv'' n = None) \<and>
   demo_rows = hd demo_rows # tl demo_rows \<and>
   reportFormat (demo_app\<lparr>reportFormat := ''complete''\<rparr>) = ''complete'' \<and>
   (\<exists>headers rows.
     generateCSV demo_world (demo_app\<lparr>reportFormat := ''complete''\<rparr>) demo_time
         (JArr (map JObj demo_rows)) ''Reports/zones.csv'' =
       (Ok (), Some \<lparr>bom = utf8_bom, records = rows\<rparr>) \<and>
     headers = [''name'', ''tag'', ''zone''] \<and>
     set headers = (\<Union>m \<in> set demo_rows. fst ` set m) \<and>
     rows ! 5 = headers \<and>
     rows ! (6 + 1) = [''dmz'', '''', ''''])"
proof -
  let ?a = "demo_app\<lparr>reportFormat := ''complete''\<rparr>"
  have h1: "mkdir_all demo_world (path_dir demo_world ''Reports/zones.csv'') = None"
    and h2: "create_file demo_world ''Reports/zones.csv'' = None"
    and h3: "write_bom demo_world ''Reports/zones.csv'' = None"
    and h4: "\<forall>n. csv_write_err demo_world ''Reports/zones.csv'' n = None"
    and h5: "hd demo_rows # tl demo_rows = demo_rows"
    and h6: "reportFormat ?a = ''complete''"
    by (simp_all add: demo_simps)
  from csv_header_modes [OF h1 h2 h3 h4, of ?a demo_time "hd demo_rows" "tl demo_rows"]
  obtain headers rows where
    run: "generateCSV demo_world ?a demo_time (JArr (map JObj demo_rows)) ''Reports/zones.csv'' =
       (if headers = [] \<and> 0 < maxRows ?a \<and> maxRows ?a < int (length demo_rows)
        then Panic ''index out of range [0] with length 0'' else Ok (),
        Some \<lparr>bom = utf8_bom, records = rows\<rparr>)"
    and six: "take 6 rows =
       [[''Report Information''],
        [''Generated'', fmt_datetime demo_time],
        [''Source'', ''PAN_ENGINE''],
        [''Total Items'', show_nat (length demo_rows)],
        ['''', ''''],
        headers]"
    and union: "set headers = (\<Union>m \<in> set demo_rows. fst ` set m)"
    unfolding h5 by (auto simp only: h6 simp_thms)
  from run have rows: "rows = [[''Report Information''], [''Generated'', ''2024-01-02 15:04:05''],
         [''Source'', ''PAN_ENGINE''], [''Total Items'', ''3''], ['''', ''''],
         [''name'', ''tag'', ''zone''],
         [''trust'', '''', ''inside''], [''dmz'', '''', ''''], [''untrust'', ''Yes'', ''outside'']]"
    unfolding csv_complete_example by (simp split: if_splits)
  from six have hd: "headers = [''name'', ''tag'', ''zone'']"
    unfolding rows by simp
  have ok: "generateCSV demo_world ?a demo_time (JArr (map JObj demo_rows)) ''Reports/zones.csv'' =
       (Ok (), Some \<lparr>bom = utf8_bom, records = rows\<rparr>)"
    unfolding csv_complete_example rows by simp
  have r5: "rows ! 5 = headers" and r7: "rows ! (6 + 1) = [''dmz'', '''', '''']"
    unfolding rows hd by simp_all
  show ?thesis
    using h1 h2 h3 h4 h5 [symmetric] h6 ok hd union r5 r7 by blast
qed

text \<open>
  C10. Where the directory, the file and the byte-order mark are written, the export of a
  sequence whose first element is no mapping returns no error and leaves a file that holds
  the byte-order mark and no record at all: no metadata block, no header, no data row. A
  payload that is neither a mapping nor a sequence gets the error
  \<^verbatim>\<open>unsupported data type for CSV export\<close> instead.
\<close>

theorem csv_first_item_not_map:
  assumes "mkdir_all w (path_dir w filePath) = None"
    and "create_file w filePath = None"
    and "write_bom w filePath = None"
  shows "((\<forall>m. x \<noteq> JObj m) \<longrightarrow>
            generateCSV w a now (JArr (x # xs)) filePath =
              (Ok (), Some \<lparr>bom = utf8_bom, records = []\<rparr>)) \<and>
         ((\<forall>m. data \<noteq> JObj m) \<and> (\<forall>v. data \<noteq> JArr v) \<longrightarrow>
            generateCSV w a now data filePath =
              (Err ''unsupported data type for CSV export'',
               Some \<lparr>bom = utf8_bom, records = []\<rparr>))"
proof (intro conjI impI)
  assume "\<forall>m. x \<noteq> JObj m"
  then show "generateCSV w a now (JArr (x # xs)) filePath =
      (Ok (), Some \<lparr>bom = utf8_bom, records = []\<rparr>)"
    using assms
    by (cases x) (simp_all add: generateCSV_def generateCSV_slice_def csv_result_def)
next
  assume "(\<forall>m. data \<noteq> JObj m) \<and> (\<forall>v. data \<noteq> JArr v)"
  then show "generateCSV w a now data filePath =
      (Err ''unsupported data type for CSV export'', Some \<lparr>bom = utf8_bom, records = []\<rparr>)"
    using assms by (cases data) (simp_all add: generateCSV_def)
qed

theorem csv_first_item_not_map_witness:
  "mkdir_all demo_world (path_dir demo_world ''Reports/zones.csv'') = None \<and>
   create_file demo_world ''Reports/zones.csv'' = None \<and>
   write_bom demo_world ''Reports/zones.csv'' = None \<and>
   (\<forall>m. JStr ''trust'' \<noteq> JObj m) \<and>
   generateCSV demo_world demo_app demo_time (JArr (JStr ''trust'' # map JObj demo_rows))
       ''Reports/zones.csv'' =
     (Ok (), Some \<lparr>bom = utf8_bom, records = []\<rparr>) \<and>
   (\<forall>m. JBool True \<noteq> JObj m) \<and> (\<forall>v. JBool True \<noteq> JArr v) \<and>
   generateCSV demo_world demo_app demo_time (JBool True) ''Reports/zones.csv'' =
     (Err ''unsupported data type for CSV export'', Some \<lparr>bom = utf8_bom, records = []\<rparr>)"
proof -
  have h1: "mkdir_all demo_world (path_dir demo_world ''Reports/zones.csv'') = None"
    and h2: "create_file demo_world ''Reports/zones.csv'' = None"
    and h3: "write_bom demo_world ''Reports/zones.csv'' = None"
    by (simp_all add: demo_simps)
  from csv_first_item_not_map [OF h1 h2 h3, of "JStr ''trust''" demo_app demo_time
      "map JObj demo_rows" "JBool True"]
  show ?thesis
    using h1 h2 h3 by simp
qed

text \<open>
  C5. With \<open>maxRows = 2\<close> and a sequence of three mappings that have no field, the
  export writes the metadata block, the empty header row and two empty data rows, and then
  panics on the first cell of the note row: the note is never written and the call does
  not return.
\<close>

theorem csv_note_row_panics:
  "generateCSV demo_world (demo_app\<lparr>maxRows := 2\<rparr>) demo_time
       (JArr [JObj [], JObj [], JObj []]) ''Reports/zones.csv'' =
     (Panic ''index out of range [0] with length 0'',
      Some \<lparr>bom = utf8_bom, records =
        [[''Report Information''], [''Generated'', ''2024-01-02 15:04:05''],
         [''Source'', ''PAN_ENGINE''], [''Total Items'', ''3''], ['''', ''''],
         [], [], []]\<rparr>)"
  by (simp add: demo_simps csv_simps)

text \<open>
  Where there is a header, the cap works as intended: a sequence longer than a positive
  \<open>maxRows\<close> gets its first \<open>maxRows\<close> entries as data rows, in order, and then the
  note row; a sequence within \<open>maxRows\<close> gets all its entries and no note.
\<close>

lemma csv_row_cap:
  assumes "mkdir_all w (path_dir w filePath) = None"
    and "create_file w filePath = None"
    and "write_bom w filePath = None"
    and "\<forall>n. csv_write_err w filePath n = None"
    and "objs \<noteq> []"
    and "0 < maxRows a"
    and "headers = sorted_keys (if reportFormat a = ''complete''
                                then concat (map (map fst) objs) else map fst (hd objs))"
    and "headers \<noteq> []"
  shows "generateCSV w a now (JArr (map JObj objs)) filePath =
     (Ok (), Some \<lparr>bom = utf8_bom, records =
        [[''Report Information''],
         [''Generated'', fmt_datetime now],
         [''Source'', ''PAN_ENGINE''],
         [''Total Items'', show_nat (length objs)],
         ['''', ''''],
         headers] @
        map (row_values w headers) (take (nat (maxRows a)) objs) @
        (if maxRows a < int (length objs)
         then [note_text (nat (maxRows a)) (length objs) # replicate (length headers - 1) '''']
         else [])\<rparr>)"
proof -
  have n: "(replicate (length headers) '''')[0 := t] = t # replicate (length headers - 1) ''''" for t
    using assms(8) by (cases headers) simp_all
  have k: "min (nat (maxRows a)) (length objs) < length objs \<longleftrightarrow> maxRows a < int (length objs)"
    using assms(6) by auto
  show ?thesis
  proof (cases "maxRows a < int (length objs)")
    case True
    then have "min (nat (maxRows a)) (length objs) = nat (maxRows a)"
      by auto
    with True show ?thesis
      unfolding generateCSV_objs [OF assms(1-3,5)] generateCSV_items_objs [OF assms(4)]
      using assms(6,8) k by (simp add: Let_def assms(7) [symmetric] n)
  next
    case False
    then have "min (nat (maxRows a)) (length objs) = length objs"
      by auto
    with False show ?thesis
      unfolding generateCSV_objs [OF assms(1-3,5)] generateCSV_items_objs [OF assms(4)]
      using assms(6,8) k by (simp add: Let_def assms(7) [symmetric])
  qed
qed

lemma csv_row_cap_example:
  "generateCSV demo_world (demo_app\<lparr>maxRows := 2\<rparr>) demo_time
       (JArr (map JObj (demo_rows @ tl demo_rows))) ''Reports/zones.csv'' =
     (Ok (), Some \<lparr>bom = utf8_bom, records =
        [[''Report Information''], [''Generated'', ''2024-01-02 15:04:05''],
         [''Source'', ''PAN_ENGINE''], [''Total Items'', ''5''], ['''', ''''],
         [''name'', ''zone''],
         [''trust'', ''inside''], [''dmz'', ''''],
         [''Note: Output limited to 2 of 5 rows'', '''']]\<rparr>)"
  by (simp add: demo_simps csv_simps)

subsection \<open>Names of exported files\<close>

lemma same_second_same_stamp:
  assumes "year t = year t'" "month t = month t'" "day t = day t'"
    and "hour t = hour t'" "minute t = minute t'" "second t = second t'"
  shows "fmt_stamp t = fmt_stamp t'"
  using assms by (simp add: fmt_stamp_def)

lemma export_csv_path:
  assumes "ExportToCSV w a t now rt = Ok p"
  shows "p = path_join w ''Reports'' (rt @ ''_'' @ fmt_stamp t @ ''.csv'')"
  using assms
  by (auto simp add: ExportToCSV_def Let_def split: option.splits outcome.splits)

lemma export_pdf_path:
  assumes "ExportToPDF w a t rt = Ok p"
  shows "p = path_join w ''Reports'' (rt @ ''_'' @ fmt_stamp t @ ''.pdf'')"
  using assms
  by (auto simp add: ExportToPDF_def Let_def split: option.splits)

lemma export_same_second:
  assumes "year t = year t'" "month t = month t'" "day t = day t'"
    and "hour t = hour t'" "minute t = minute t'" "second t = second t'"
  shows "ExportToCSV w a t now rt = Ok p \<Longrightarrow> ExportToCSV w a' t' now' rt = Ok p' \<Longrightarrow> p = p'"
    and "ExportToPDF w a t rt = Ok q \<Longrightarrow> ExportToPDF w a' t' rt = Ok q' \<Longrightarrow> q = q'"
  using same_second_same_stamp [OF assms]
  by (auto dest!: export_csv_path export_pdf_path)

text \<open>
  C7. Two exports of the cached \<^verbatim>\<open>zones\<close> report whose clock readings lie in the same
  second, 0.9 seconds apart, get the same file name, in the tabular format and in the
  document format alike: nothing but the reading, cut to whole seconds, tells two names of
  one report type and one format apart.
\<close>

theorem export_names_collide:
  "nsec demo_time = 0 \<and> nsec (demo_time\<lparr>nsec := 900000000\<rparr>) = 900000000 \<and>
   ExportToCSV demo_world fetched_app demo_time demo_time ''zones'' =
     Ok ''Reports/zones_20240102_150405.csv'' \<and>
   ExportToCSV demo_world fetched_app (demo_time\<lparr>nsec := 900000000\<rparr>)
       (demo_time\<lparr>nsec := 900000000\<rparr>) ''zones'' =
     Ok ''Reports/zones_20240102_150405.csv'' \<and>
   ExportToPDF demo_world fetched_app demo_time ''zones'' =
     Ok ''Reports/zones_20240102_150405.pdf'' \<and>
   ExportToPDF demo_world fetched_app (demo_time\<lparr>nsec := 900000000\<rparr>) ''zones'' =
     Ok ''Reports/zones_20240102_150405.pdf''"
  by (simp add: fetched_app_eq ExportToCSV_def ExportToPDF_def generatePDF_def fmt_stamp_def
      demo_simps csv_simps)

subsection \<open>The goroutines of a batch\<close>

lemma pool_inv_start: "pool_inv n pool_start"
  by (simp add: pool_inv_def pool_start_def)

lemma count_update:
  assumes "i < length xs"
  shows "count (mset (xs[i := y])) a =
         count (mset xs) a - (if xs ! i = a then 1 else 0) + (if y = a then 1 else 0)"
  using assms by (simp add: mset_update)

lemma count_nth_Suc: "i < length xs \<Longrightarrow> \<exists>k. count (mset xs) (xs ! i) = Suc k"
  by (cases "count (mset xs) (xs ! i)") simp_all

lemma filter_count: "length (filter (\<lambda>p. p = a) xs) = count (mset xs) a"
  by (induction xs) auto

lemma pool_inv_fire:
  assumes "pool_inv n s" and "fire n e s = Some s'"
  shows "pool_inv n s'"
proof (cases e)
  case Dispatch
  with assms show ?thesis
    by (auto simp add: fire_def pool_inv_def split: if_splits)
next
  case LoopEnd
  with assms show ?thesis
    by (auto simp add: fire_def pool_inv_def split: if_splits)
next
  case (Acquire i)
  with assms have i: "i < length (phases s)" "phases s ! i = Queued" "slots s < semaphore_cap"
    and s': "s' = s\<lparr>phases := (phases s)[i := Running], slots := slots s + 1\<rparr>"
    by (auto simp add: fire_def split: if_splits)
  from count_nth_Suc [OF i(1)] i(2) obtain k where "count (mset (phases s)) Queued = Suc k"
    by auto
  with assms(1) i show ?thesis
    unfolding s' pool_inv_def by (auto simp add: count_update)
next
  case (Release i)
  with assms have i: "i < length (phases s)" "phases s ! i = Running" "0 < slots s"
    and s': "s' = s\<lparr>phases := (phases s)[i := Released], slots := slots s - 1\<rparr>"
    by (auto simp add: fire_def split: if_splits)
  from count_nth_Suc [OF i(1)] i(2) obtain k where "count (mset (phases s)) Running = Suc k"
    by auto
  with assms(1) i show ?thesis
    unfolding s' pool_inv_def by (auto simp add: count_update)
next
  case (Done i)
  with assms have i: "i < length (phases s)" "phases s ! i = Released" "0 < wg s"
    and s': "s' = s\<lparr>phases := (phases s)[i := Finished], wg := wg s - 1\<rparr>"
    by (auto simp add: fire_def split: if_splits)
  from count_nth_Suc [OF i(1)] i(2) obtain k where "count (mset (phases s)) Released = Suc k"
    by auto
  with assms(1) i show ?thesis
    unfolding s' pool_inv_def by (auto simp add: count_update)
next
  case WaitReturn
  with assms show ?thesis
    by (auto simp add: fire_def pool_inv_def split: if_splits)
qed

lemma pool_inv_run:
  assumes "pool_inv n s" and "run_pool n es s = Some s'"
  shows "pool_inv n s'"
  using assms
proof (induction es arbitrary: s)
  case Nil
  then show ?case by simp
next
  case (Cons e es)
  then show ?case
    by (auto split: option.splits dest: pool_inv_fire)
qed

lemma all_finished:
  assumes "Queued \<notin> set xs" "Running \<notin> set xs" "Released \<notin> set xs"
  shows "\<forall>p \<in> set xs. p = Finished"
proof
  fix p assume "p \<in> set xs"
  with assms show "p = Finished" by (cases p) auto
qed

text \<open>
  C9. In every state that a batch run can reach, whatever the scheduler does, at most three
  goroutines are between their send into \<^verbatim>\<open>semaphore\<close> and their receive from it,
  that is, fetching or exporting; a further goroutine can take its slot only while fewer
  than three are; and once \<^verbatim>\<open>wg.Wait()\<close> has returned, a goroutine has been started
  for each of the \<open>n\<close> report types and every one of them has finished.
\<close>

theorem batch_pool_bound:
  assumes "run_pool n es pool_start = Some s"
  shows "length (filter (\<lambda>p. p = Running) (phases s)) \<le> 3 \<and>
         (\<forall>i s'. fire n (Acquire i) s = Some s' \<longrightarrow>
            length (filter (\<lambda>p. p = Running) (phases s)) < 3) \<and>
         (caller s = Returned \<longrightarrow>
            length (phases s) = n \<and> (\<forall>p \<in> set (phases s). p = Finished))"
proof -
  from pool_inv_run [OF pool_inv_start assms] have inv: "pool_inv n s" .
  have cnt: "length (filter (\<lambda>p. p = Running) (phases s)) = count (mset (phases s)) Running"
    by (rule filter_count)
  have a: "length (filter (\<lambda>p. p = Running) (phases s)) \<le> 3"
    using inv by (simp add: cnt pool_inv_def semaphore_cap_def)
  have b: "\<forall>i s'. fire n (Acquire i) s = Some s' \<longrightarrow>
            length (filter (\<lambda>p. p = Running) (phases s)) < 3"
    using inv by (auto simp add: cnt pool_inv_def semaphore_cap_def fire_def split: if_splits)
  have c: "caller s = Returned \<longrightarrow>
            length (phases s) = n \<and> (\<forall>p \<in> set (phases s). p = Finished)"
  proof
    assume r: "caller s = Returned"
    from inv r have z: "wg s = 0"
      unfolding pool_inv_def by blast
    from inv r have len: "length (phases s) = n"
      unfolding pool_inv_def by auto
    from inv have w: "wg s = count (mset (phases s)) Queued + count (mset (phases s)) Running +
        count (mset (phases s)) Released"
      unfolding pool_inv_def by blast
    from w z have "count (mset (phases s)) Queued = 0 \<and> count (mset (phases s)) Running = 0 \<and>
        count (mset (phases s)) Released = 0"
      by linarith
    then have "Queued \<notin> set (phases s)" "Running \<notin> set (phases s)"
      "Released \<notin> set (phases s)"
      by simp_all
    then have "\<forall>p \<in> set (phases s). p = Finished"
      by (rule all_finished)
    with len show "length (phases s) = n \<and> (\<forall>p \<in> set (phases s). p = Finished)"
      by simp
  qed
  from a b c show ?thesis by blast
qed

text \<open>
  The pool never gets stuck: as long as the caller has not returned, some event can happen.
\<close>

lemma pool_progress:
  assumes "run_pool n es pool_start = Some s" and "caller s \<noteq> Returned"
  shows "\<exists>e s'. fire n e s = Some s'"
proof -
  from pool_inv_run [OF pool_inv_start assms(1)] have inv: "pool_inv n s" .
  then have slots: "slots s = count (mset (phases s)) Running"
    and wg: "wg s = count (mset (phases s)) Queued + count (mset (phases s)) Running +
            count (mset (phases s)) Released"
    and len: "length (phases s) \<le> n"
    unfolding pool_inv_def by blast+
  show ?thesis
  proof (cases "caller s")
    case Dispatching
    show ?thesis
    proof (cases "length (phases s) < n")
      case True
      with Dispatching have "fire n Dispatch s =
          Some (s\<lparr>phases := phases s @ [Queued], wg := wg s + 1\<rparr>)"
        by (simp add: fire_def)
      then show ?thesis by blast
    next
      case False
      with len Dispatching have "fire n LoopEnd s = Some (s\<lparr>caller := Waiting\<rparr>)"
        by (simp add: fire_def)
      then show ?thesis by blast
    qed
  next
    case Waiting
    show ?thesis
    proof (cases "wg s = 0")
      case True
      with Waiting have "fire n WaitReturn s = Some (s\<lparr>caller := Returned\<rparr>)"
        by (simp add: fire_def)
      then show ?thesis by blast
    next
      case False
      consider "Running \<in> set (phases s)"
        | "Running \<notin> set (phases s)" "Released \<in> set (phases s)"
        | "Running \<notin> set (phases s)" "Released \<notin> set (phases s)" "Queued \<in> set (phases s)"
      proof -
        have "\<not> (Running \<notin> set (phases s) \<and> Released \<notin> set (phases s) \<and>
                  Queued \<notin> set (phases s))"
        proof
          assume "Running \<notin> set (phases s) \<and> Released \<notin> set (phases s) \<and>
                  Queued \<notin> set (phases s)"
          then have "count (mset (phases s)) Queued = 0" "count (mset (phases s)) Running = 0"
            "count (mset (phases s)) Released = 0"
            by simp_all
          with wg False show False by linarith
        qed
        then show ?thesis using that by blast
      qed
      then show ?thesis
      proof cases
        case 1
        then obtain i where i: "i < length (phases s)" "phases s ! i = Running"
          by (auto simp add: in_set_conv_nth)
        from 1 have "0 < count (mset (phases s)) Running"
          by simp
        with slots have "0 < slots s" by linarith
        with i have "fire n (Release i) s =
            Some (s\<lparr>phases := (phases s)[i := Released], slots := slots s - 1\<rparr>)"
          by (simp add: fire_def)
        then show ?thesis by blast
      next
        case 2
        then obtain i where i: "i < length (phases s)" "phases s ! i = Released"
          by (auto simp add: in_set_conv_nth)
        with False have "fire n (Done i) s =
            Some (s\<lparr>phases := (phases s)[i := Finished], wg := wg s - 1\<rparr>)"
          by (simp add: fire_def)
        then show ?thesis by blast
      next
        case 3
        then obtain i where i: "i < length (phases s)" "phases s ! i = Queued"
          by (auto simp add: in_set_conv_nth)
        from 3 have "count (mset (phases s)) Running = 0"
          by simp
        with slots have "slots s < semaphore_cap"
          by (simp add: semaphore_cap_def)
        with i have "fire n (Acquire i) s =
            Some (s\<lparr>phases := (phases s)[i := Running], slots := slots s + 1\<rparr>)"
          by (simp add: fire_def)
        then show ?thesis by blast
      qed
    qed
  next
    case Returned
    with assms(2) show ?thesis by simp
  qed
qed

lemmas pool_simps = demo_schedule_def fire_def pool_start_def semaphore_cap_def

lemma pool_full_example:
  "run_pool 5 (take 9 demo_schedule) pool_start =
     Some \<lparr>caller = Waiting, phases = [Running, Running, Queued, Queued, Running],
           slots = 3, wg = 5\<rparr>"
  by (simp add: pool_simps)

lemma pool_done_example:
  "run_pool 5 demo_schedule pool_start =
     Some \<lparr>caller = Returned, phases = [Finished, Finished, Finished, Finished, Finished],
           slots = 0, wg = 0\<rparr>"
  by (simp add: pool_simps)

theorem batch_pool_bound_witness:
  "run_pool 5 (take 9 demo_schedule) pool_start =
     Some \<lparr>caller = Waiting, phases = [Running, Running, Queued, Queued, Running],
           slots = 3, wg = 5\<rparr> \<and>
   length (filter (\<lambda>p. p = Running) [Running, Running, Queued, Queued, Running]) = 3 \<and>
   fire 5 (Acquire 2)
     \<lparr>caller = Waiting, phases = [Running, Running, Queued, Queued, Running],
      slots = 3, wg = 5\<rparr> = None \<and>
   run_pool 5 demo_schedule pool_start =
     Some \<lparr>caller = Returned, phases = [Finished, Finished, Finished, Finished, Finished],
           slots = 0, wg = 0\<rparr> \<and>
   length [Finished, Finished, Finished, Finished, Finished] = 5"
proof -
  from batch_pool_bound [OF pool_full_example] batch_pool_bound [OF pool_done_example]
  show ?thesis
    using pool_full_example pool_done_example by (simp add: fire_def semaphore_cap_def)
qed

subsection \<open>Loading the stored settings\<close>

lemmas vault_simps = demo_vault_def demo_settings_def never_missing_def demo_read_file_def
  demo_unmarshal_settings_def demo_unmarshal_forged_def gcm_reject_def std_base64_decode_def
  b64_value_def b64_quantum_def gcm_nonce_size_def

lemma decrypt_fails:
  assumes "EncryptedKey s \<noteq> ''''"
    and "base64_decode io (EncryptedKey s) = Inr data"
    and "length data < gcm_nonce_size \<or>
         (\<exists>e. gcm_open io (take gcm_nonce_size data) (drop gcm_nonce_size data) = Inl e)"
  shows "\<exists>e. decryptAPIKey io (EncryptedKey s) = Inl e"
  using assms by (auto simp add: decryptAPIKey_def split: option.splits)

text \<open>
  C2, as amended. When the stored settings hold a non-empty encrypted key whose decoded
  ciphertext is shorter than the nonce or is refused by \<^verbatim>\<open>gcm.Open\<close>,
  \<^verbatim>\<open>decryptAPIKey\<close> returns an error and \<^verbatim>\<open>loadSettings\<close> drops it: it returns
  \<^verbatim>\<open>nil\<close>, takes the URL, a positive row limit and a non-empty report format from the
  file, and leaves the API key of the state as it was.
\<close>

theorem load_settings_drops_decrypt_error:
  assumes "\<not> stat_not_exist io (settingsPath a)"
    and "read_file io (settingsPath a) = Inr raw"
    and "unmarshal_settings io raw = Inr s"
    and "EncryptedKey s \<noteq> ''''"
    and "base64_decode io (EncryptedKey s) = Inr data"
    and "length data < gcm_nonce_size \<or>
         (\<exists>e. gcm_open io (take gcm_nonce_size data) (drop gcm_nonce_size data) = Inl e)"
  shows "(\<exists>e. decryptAPIKey io (EncryptedKey s) = Inl e) \<and>
         loadSettings io a =
           (None, a\<lparr>apiURL := APIURL s,
                    maxRows := (if 0 < MaxRows s then MaxRows s else maxRows a),
                    reportFormat := (if ReportFormat s \<noteq> '''' then ReportFormat s
                                     else reportFormat a)\<rparr>)"
proof -
  from decrypt_fails [OF assms(4-6)]
  obtain e where e: "decryptAPIKey io (EncryptedKey s) = Inl e" ..
  have "loadSettings io a =
           (None, a\<lparr>apiURL := APIURL s,
                    maxRows := (if 0 < MaxRows s then MaxRows s else maxRows a),
                    reportFormat := (if ReportFormat s \<noteq> '''' then ReportFormat s
                                     else reportFormat a)\<rparr>)"
    using assms(1-4) e by (simp add: loadSettings_def Let_def)
  with e show ?thesis by blast
qed

text \<open>
  The claim as stated fails: a stored key of three bytes makes \<^verbatim>\<open>decryptAPIKey\<close>
  answer \<^verbatim>\<open>ciphertext too short\<close>, and \<^verbatim>\<open>loadSettings\<close> on a fresh state still
  returns \<^verbatim>\<open>nil\<close>, with the empty API key of \<^verbatim>\<open>NewApp\<close>.
\<close>

theorem load_settings_short_key_counterexample:
  "\<not> stat_not_exist demo_vault (settingsPath NewApp) \<and>
   read_file demo_vault (settingsPath NewApp) = Inr ''(the stored settings)'' \<and>
   unmarshal_settings demo_vault ''(the stored settings)'' = Inr demo_settings \<and>
   EncryptedKey demo_settings = ''QUJD'' \<and>
   base64_decode demo_vault ''QUJD'' = Inr [0x41, 0x42, 0x43] \<and>
   length [0x41, 0x42, 0x43 :: byte] < gcm_nonce_size \<and>
   decryptAPIKey demo_vault ''QUJD'' = Inl ''ciphertext too short'' \<and>
   loadSettings demo_vault NewApp =
     (None, NewApp\<lparr>apiURL := ''https://fw.example'', maxRows := 500,
                    reportFormat := ''complete''\<rparr>) \<and>
   apiKey (snd (loadSettings demo_vault NewApp)) = ''''"
  by (simp add: vault_simps NewApp_def loadSettings_def decryptAPIKey_def)

theorem load_settings_drops_decrypt_error_witness:
  "\<not> stat_not_exist (demo_vault\<lparr>unmarshal_settings := demo_unmarshal_forged\<rparr>) (settingsPath NewApp) \<and>
   EncryptedKey (demo_settings\<lparr>EncryptedKey := ''QUJDREVGR0hJSktMTU5PUFFSU1RVVldYWVowMTIz''\<rparr>) \<noteq> '''' \<and>
   length (''ABCDEFGHIJKLMNOPQRSTUVWXYZ0123'') = 30 \<and>
   (\<exists>e. decryptAPIKey (demo_vault\<lparr>unmarshal_settings := demo_unmarshal_forged\<rparr>)
          ''QUJDREVGR0hJSktMTU5PUFFSU1RVVldYWVowMTIz'' = Inl e) \<and>
   loadSettings (demo_vault\<lparr>unmarshal_settings := demo_unmarshal_forged\<rparr>) NewApp =
     (None, NewApp\<lparr>apiURL := ''https://fw.example'', maxRows := 500,
                    reportFormat := ''complete''\<rparr>)"
proof -
  let ?io = "demo_vault\<lparr>unmarshal_settings := demo_unmarshal_forged\<rparr>"
  let ?s = "demo_settings\<lparr>EncryptedKey := ''QUJDREVGR0hJSktMTU5PUFFSU1RVVldYWVowMTIz''\<rparr>"
  let ?data = "map (of_nat \<circ> of_char) ''ABCDEFGHIJKLMNOPQRSTUVWXYZ0123'' :: byte list"
  have h1: "\<not> stat_not_exist ?io (settingsPath NewApp)"
    and h2: "read_file ?io (settingsPath NewApp) = Inr ''(the stored settings)''"
    and h3: "unmarshal_settings ?io ''(the stored settings)'' = Inr ?s"
    and h4: "EncryptedKey ?s \<noteq> ''''"
    by (simp_all add: vault_simps NewApp_def)
  have h5: "base64_decode ?io (EncryptedKey ?s) = Inr ?data"
    by (simp add: vault_simps)
  have h6: "length ?data < gcm_nonce_size \<or>
         (\<exists>e. gcm_open ?io (take gcm_nonce_size ?data) (drop gcm_nonce_size ?data) = Inl e)"
    by (simp add: vault_simps)
  from load_settings_drops_decrypt_error [OF h1 h2 h3 h4 h5 h6]
  show ?thesis
    using h1 h4 by (simp add: vault_simps NewApp_def)
qed

subsection \<open>Encrypting and decrypting the API key\<close>





text \<open>
  Whatever text it is given, \<^verbatim>\<open>decryptAPIKey\<close> returns a string only when
  \<^verbatim>\<open>gcm.Open\<close> has accepted the decoded bytes, split at the length of the nonce; the
  string is the plain text that \<^verbatim>\<open>gcm.Open\<close> gave.
\<close>

lemma decrypt_returns_authenticated:
  assumes "decryptAPIKey io enc = Inr s" and "enc \<noteq> ''''"
  shows "\<exists>data plaintext. base64_decode io enc = Inr data \<and> gcm_nonce_size \<le> length data \<and>
           gcm_open io (take gcm_nonce_size data) (drop gcm_nonce_size data) = Inr plaintext \<and>
           s = string_of_bytes plaintext"
  using assms
  by (auto simp add: decryptAPIKey_def split: sum.splits option.splits if_splits)








subsection \<open>Batch export\<close>

text \<open>
  The payload that a goroutine exports is a map, so its export does not panic.
\<close>

lemma generateCSV_map_no_panic: "fst (generateCSV_map w now v p) \<noteq> Panic m"
  by (simp add: generateCSV_map_def csv_result_def Let_def split: prod.splits option.splits)

lemma generateCSV_object_no_panic: "fst (generateCSV w a now (JObj v) p) \<noteq> Panic m"
  by (simp add: generateCSV_def generateCSV_map_no_panic split: option.splits)

lemma ExportToCSV_object_no_panic:
  assumes "reportData a rt = Some (JObj v)"
  shows "ExportToCSV w a t now rt \<noteq> Panic m"
proof -
  let ?r = "fst (generateCSV w a now (JObj v) (path_join w ''Reports'' (rt @ ''_'' @ fmt_stamp t @ ''.csv'')))"
  have "?r \<noteq> Panic m'" for m'
    by (rule generateCSV_object_no_panic)
  then show ?thesis
    using assms by (cases ?r) (simp_all add: ExportToCSV_def Let_def)
qed

lemma ExportToPDF_no_panic: "ExportToPDF w a t rt \<noteq> Panic m"
  by (simp add: ExportToPDF_def Let_def split: option.splits)

lemma exported_cases:
  assumes "\<And>m. x \<noteq> Panic m"
  obtains p where "x = Ok p" | e where "x = Err e"
  using assms by (cases x) auto

text \<open>
  The assignment that a goroutine makes between \<open>AtStore\<close> and \<open>AtStoreAgain\<close> is the
  one of \<^verbatim>\<open>GenerateReport\<close>.
\<close>

lemma GenerateReport_store:
  "snd (GenerateReport w a rt startDate endDate) =
     (case fst (GenerateReport w a rt startDate endDate) of
        Inl e \<Rightarrow> a
      | Inr data \<Rightarrow> a\<lparr>reportData := (reportData a)(rt \<mapsto> JObj data)\<rparr>)"
  by (simp add: GenerateReport_def Let_def split: sum.splits)

text \<open>
  The invariant holds at the start and after every step that does not end the process.
\<close>

lemma batch_inv_start: "batch_inv reportTypes (batch_start a)"
  by (simp add: batch_inv_def batch_start_def pool_inv_start) (simp add: pool_start_def)

lemma batch_inv_move:
  assumes inv: "batch_inv rts s"
    and i: "i < length (tasks s)" "tasks s ! i \<noteq> AtExit" "phases (pool_of s) ! i = Running"
    and t: "t \<noteq> AtExit" "t \<noteq> AtFetch"
      "t = AtExport \<longrightarrow> (\<exists>d. reportData (app s') (rts ! i) = Some (JObj d))"
    and cache: "\<forall>k d. reportData (app s) k = Some (JObj d) \<longrightarrow>
                  (\<exists>d'. reportData (app s') k = Some (JObj d'))"
    and same: "pool_of s' = pool_of s" "tasks s' = (tasks s)[i := t]" "results s' = results s"
      "errorCount s' = errorCount s" "successCount s' = successCount s"
  shows "batch_inv rts s'"
proof -
  have cnt: "count (mset ((tasks s)[i := t])) AtExit = count (mset (tasks s)) AtExit"
    using i t by (simp add: count_update)
  have nth: "(tasks s)[i := t] ! j = AtExit \<longleftrightarrow> tasks s ! j = AtExit" if "j < length (tasks s)" for j
    using i t that by (auto simp add: nth_list_update)
  have dom: "(\<exists>j < length (tasks s). (tasks s)[i := t] ! j = AtExit \<and> rts ! j = k) \<longleftrightarrow>
             (\<exists>j < length (tasks s). tasks s ! j = AtExit \<and> rts ! j = k)" for k
    using nth by blast
  have pos: "(phases (pool_of s) ! j = Queued \<longrightarrow> (tasks s)[i := t] ! j = AtFetch) \<and>
        (phases (pool_of s) ! j = Released \<or> phases (pool_of s) ! j = Finished \<longrightarrow>
           (tasks s)[i := t] ! j = AtExit) \<and>
        ((tasks s)[i := t] ! j = AtExport \<longrightarrow> (\<exists>d. reportData (app s') (rts ! j) = Some (JObj d)))"
    if j: "j < length (tasks s)" for j
  proof (cases "j = i")
    case True
    with i t show ?thesis by simp
  next
    case False
    with inv j cache show ?thesis
      unfolding batch_inv_def by (simp add: nth_list_update)
  qed
  from inv have old: "pool_inv (length rts) (pool_of s)"
    "length (tasks s) = length (phases (pool_of s))"
    "\<forall>k. k \<in> dom (results s) \<longleftrightarrow>
       (\<exists>j < length (tasks s). tasks s ! j = AtExit \<and> rts ! j = k)"
    "\<forall>k x. results s k \<noteq> Some (RunSummary x)"
    "errorCount s + successCount s = count (mset (tasks s)) AtExit"
    unfolding batch_inv_def by simp_all
  have g2: "length ((tasks s)[i := t]) = length (phases (pool_of s))"
    using old(2) by simp
  have g3: "\<forall>j < length ((tasks s)[i := t]).
        (phases (pool_of s) ! j = Queued \<longrightarrow> (tasks s)[i := t] ! j = AtFetch) \<and>
        (phases (pool_of s) ! j = Released \<or> phases (pool_of s) ! j = Finished \<longrightarrow>
           (tasks s)[i := t] ! j = AtExit) \<and>
        ((tasks s)[i := t] ! j = AtExport \<longrightarrow> (\<exists>d. reportData (app s') (rts ! j) = Some (JObj d)))"
    using pos by simp
  have g4: "\<forall>k. k \<in> dom (results s) \<longleftrightarrow>
       (\<exists>j < length ((tasks s)[i := t]). (tasks s)[i := t] ! j = AtExit \<and> rts ! j = k)"
    using old(3) dom by simp
  have g6: "errorCount s + successCount s = count (mset ((tasks s)[i := t])) AtExit"
    using old(5) cnt by simp
  show ?thesis
    unfolding batch_inv_def same by (intro conjI old(1) g2 g3 g4 old(4) g6)
qed

lemma batch_inv_record:
  assumes inv: "batch_inv rts s"
    and i: "i < length (tasks s)" "tasks s ! i \<noteq> AtExit" "phases (pool_of s) ! i = Running"
    and e: "\<forall>x. e \<noteq> RunSummary x"
    and same: "pool_of s' = pool_of s" "tasks s' = (tasks s)[i := AtExit]"
      "results s' = (results s)(rts ! i \<mapsto> e)" "app s' = app s"
    and cnt: "errorCount s' + successCount s' = Suc (errorCount s + successCount s)"
  shows "batch_inv rts s'"
proof -
  have c: "count (mset ((tasks s)[i := AtExit])) AtExit = Suc (count (mset (tasks s)) AtExit)"
    using i by (simp add: count_update)
  have dom: "k \<in> dom ((results s)(rts ! i \<mapsto> e)) \<longleftrightarrow>
             (\<exists>j < length (tasks s). (tasks s)[i := AtExit] ! j = AtExit \<and> rts ! j = k)" for k
  proof -
    from inv have old: "k \<in> dom (results s) \<longleftrightarrow>
        (\<exists>j < length (tasks s). tasks s ! j = AtExit \<and> rts ! j = k)"
      unfolding batch_inv_def by blast
    have "(\<exists>j < length (tasks s). (tasks s)[i := AtExit] ! j = AtExit \<and> rts ! j = k) \<longleftrightarrow>
          rts ! i = k \<or> (\<exists>j < length (tasks s). tasks s ! j = AtExit \<and> rts ! j = k)"
      using i by (auto simp add: nth_list_update split: if_splits)
    with old show ?thesis by auto
  qed
  have pos: "(phases (pool_of s) ! j = Queued \<longrightarrow> (tasks s)[i := AtExit] ! j = AtFetch) \<and>
        (phases (pool_of s) ! j = Released \<or> phases (pool_of s) ! j = Finished \<longrightarrow>
           (tasks s)[i := AtExit] ! j = AtExit) \<and>
        ((tasks s)[i := AtExit] ! j = AtExport \<longrightarrow> (\<exists>d. reportData (app s) (rts ! j) = Some (JObj d)))"
    if j: "j < length (tasks s)" for j
  proof (cases "j = i")
    case True
    with i show ?thesis by simp
  next
    case False
    with inv j show ?thesis
      unfolding batch_inv_def by (simp add: nth_list_update)
  qed
  have sum: "\<forall>k x. ((results s)(rts ! i \<mapsto> e)) k \<noteq> Some (RunSummary x)"
    using inv e unfolding batch_inv_def by simp
  from inv have rest: "pool_inv (length rts) (pool_of s)"
    "length (tasks s) = length (phases (pool_of s))"
    "errorCount s + successCount s = count (mset (tasks s)) AtExit"
    unfolding batch_inv_def by simp_all
  have g2: "length ((tasks s)[i := AtExit]) = length (phases (pool_of s))"
    using rest(2) by simp
  have g3: "\<forall>j < length ((tasks s)[i := AtExit]).
        (phases (pool_of s) ! j = Queued \<longrightarrow> (tasks s)[i := AtExit] ! j = AtFetch) \<and>
        (phases (pool_of s) ! j = Released \<or> phases (pool_of s) ! j = Finished \<longrightarrow>
           (tasks s)[i := AtExit] ! j = AtExit) \<and>
        ((tasks s)[i := AtExit] ! j = AtExport \<longrightarrow> (\<exists>d. reportData (app s) (rts ! j) = Some (JObj d)))"
    using pos by simp
  have g4: "\<forall>k. k \<in> dom ((results s)(rts ! i \<mapsto> e)) \<longleftrightarrow>
       (\<exists>j < length ((tasks s)[i := AtExit]). (tasks s)[i := AtExit] ! j = AtExit \<and> rts ! j = k)"
    using dom by simp
  have g6: "errorCount s' + successCount s' = count (mset ((tasks s)[i := AtExit])) AtExit"
    using rest(3) cnt c by simp
  show ?thesis
    unfolding batch_inv_def same by (intro conjI rest(1) g2 g3 g4 sum g6)
qed


lemma batch_inv_sched:
  assumes inv: "batch_inv rts s"
    and fired: "fire (length rts) e (pool_of s) = Some p"
    and rel: "case e of Release i \<Rightarrow> i < length (tasks s) \<and> tasks s ! i = AtExit | _ \<Rightarrow> True"
  shows "batch_inv rts
           (s\<lparr>pool_of := p, tasks := (if e = Dispatch then tasks s @ [AtFetch] else tasks s)\<rparr>)"
proof -
  from inv have old: "pool_inv (length rts) (pool_of s)"
    "length (tasks s) = length (phases (pool_of s))"
    "\<forall>j < length (tasks s).
        (phases (pool_of s) ! j = Queued \<longrightarrow> tasks s ! j = AtFetch) \<and>
        (phases (pool_of s) ! j = Released \<or> phases (pool_of s) ! j = Finished \<longrightarrow>
           tasks s ! j = AtExit) \<and>
        (tasks s ! j = AtExport \<longrightarrow> (\<exists>d. reportData (app s) (rts ! j) = Some (JObj d)))"
    "\<forall>k. k \<in> dom (results s) \<longleftrightarrow>
       (\<exists>j < length (tasks s). tasks s ! j = AtExit \<and> rts ! j = k)"
    "\<forall>k x. results s k \<noteq> Some (RunSummary x)"
    "errorCount s + successCount s = count (mset (tasks s)) AtExit"
    unfolding batch_inv_def by simp_all
  have g1: "pool_inv (length rts) p"
    using old(1) fired by (rule pool_inv_fire)
  show ?thesis
  proof (cases e)
    case Dispatch
    with fired have p: "p = (pool_of s)\<lparr>phases := phases (pool_of s) @ [Queued],
                                         wg := wg (pool_of s) + 1\<rparr>"
      by (auto simp add: fire_def split: if_splits)
    have g3: "\<forall>j < length (tasks s @ [AtFetch]).
        ((phases (pool_of s) @ [Queued]) ! j = Queued \<longrightarrow> (tasks s @ [AtFetch]) ! j = AtFetch) \<and>
        ((phases (pool_of s) @ [Queued]) ! j = Released \<or>
         (phases (pool_of s) @ [Queued]) ! j = Finished \<longrightarrow> (tasks s @ [AtFetch]) ! j = AtExit) \<and>
        ((tasks s @ [AtFetch]) ! j = AtExport \<longrightarrow>
           (\<exists>d. reportData (app s) (rts ! j) = Some (JObj d)))"
      using old(2,3) by (auto simp add: nth_append)
    have g4: "\<forall>k. k \<in> dom (results s) \<longleftrightarrow>
       (\<exists>j < length (tasks s @ [AtFetch]). (tasks s @ [AtFetch]) ! j = AtExit \<and> rts ! j = k)"
      using old(4) by (auto simp add: nth_append less_Suc_eq)
    show ?thesis
      unfolding batch_inv_def using g1 g3 g4 old(2,5,6) by (simp add: Dispatch p)
  next
    case LoopEnd
    with fired have p: "phases p = phases (pool_of s)"
      by (auto simp add: fire_def split: if_splits)
    show ?thesis
      unfolding batch_inv_def using g1 old by (simp add: LoopEnd p)
  next
    case WaitReturn
    with fired have p: "phases p = phases (pool_of s)"
      by (auto simp add: fire_def split: if_splits)
    show ?thesis
      unfolding batch_inv_def using g1 old by (simp add: WaitReturn p)
  next
    case (Acquire i)
    with fired have p: "phases p = (phases (pool_of s))[i := Running]"
      and i: "i < length (phases (pool_of s))"
      by (auto simp add: fire_def split: if_splits)
    have g3: "\<forall>j < length (tasks s).
        ((phases (pool_of s))[i := Running] ! j = Queued \<longrightarrow> tasks s ! j = AtFetch) \<and>
        ((phases (pool_of s))[i := Running] ! j = Released \<or>
         (phases (pool_of s))[i := Running] ! j = Finished \<longrightarrow> tasks s ! j = AtExit) \<and>
        (tasks s ! j = AtExport \<longrightarrow> (\<exists>d. reportData (app s) (rts ! j) = Some (JObj d)))"
      using old(2,3) i by (auto simp add: nth_list_update split: if_splits)
    show ?thesis
      unfolding batch_inv_def using g1 g3 old(2,4,5,6) by (simp add: Acquire p)
  next
    case (Release i)
    with fired have p: "phases p = (phases (pool_of s))[i := Released]"
      and i: "i < length (phases (pool_of s))"
      by (auto simp add: fire_def split: if_splits)
    from rel Release have ex: "tasks s ! i = AtExit"
      by simp
    have g3: "\<forall>j < length (tasks s).
        ((phases (pool_of s))[i := Released] ! j = Queued \<longrightarrow> tasks s ! j = AtFetch) \<and>
        ((phases (pool_of s))[i := Released] ! j = Released \<or>
         (phases (pool_of s))[i := Released] ! j = Finished \<longrightarrow> tasks s ! j = AtExit) \<and>
        (tasks s ! j = AtExport \<longrightarrow> (\<exists>d. reportData (app s) (rts ! j) = Some (JObj d)))"
      using old(2,3) ex i by (auto simp add: nth_list_update split: if_splits)
    show ?thesis
      unfolding batch_inv_def using g1 g3 old(2,4,5,6) by (simp add: Release p)
  next
    case (Done i)
    with fired have p: "phases p = (phases (pool_of s))[i := Finished]"
      and i: "i < length (phases (pool_of s))" "phases (pool_of s) ! i = Released"
      by (auto simp add: fire_def split: if_splits)
    from old(2,3) i have ex: "tasks s ! i = AtExit"
      by simp
    have g3: "\<forall>j < length (tasks s).
        ((phases (pool_of s))[i := Finished] ! j = Queued \<longrightarrow> tasks s ! j = AtFetch) \<and>
        ((phases (pool_of s))[i := Finished] ! j = Released \<or>
         (phases (pool_of s))[i := Finished] ! j = Finished \<longrightarrow> tasks s ! j = AtExit) \<and>
        (tasks s ! j = AtExport \<longrightarrow> (\<exists>d. reportData (app s) (rts ! j) = Some (JObj d)))"
      using old(2,3) ex i by (auto simp add: nth_list_update split: if_splits)
    show ?thesis
      unfolding batch_inv_def using g1 g3 old(2,4,5,6) by (simp add: Done p)
  qed
qed

lemma batch_inv_body:
  assumes inv: "batch_inv rts s"
    and i: "i < length (tasks s)" "tasks s ! i \<noteq> AtExit" "phases (pool_of s) ! i = Running"
    and step: "body_step w clock format startDate endDate i (rts ! i) s = Inr s'"
  shows "batch_inv rts s'"
proof (cases "tasks s ! i")
  case AtFetch
  show ?thesis
  proof (cases "fst (GenerateReport w (app s) (rts ! i) startDate endDate)")
    case (Inl err)
    with step AtFetch have s': "s' = move i (AtRecordFailure err) s"
      by (simp add: body_step_def)
    show ?thesis
      by (rule batch_inv_move [OF inv i, of "AtRecordFailure err"]) (simp_all add: s' move_def)
  next
    case (Inr data)
    with step AtFetch have s': "s' = move i (AtStore data) s"
      by (simp add: body_step_def)
    show ?thesis
      by (rule batch_inv_move [OF inv i, of "AtStore data"]) (simp_all add: s' move_def)
  qed
next
  case (AtStore data)
  with step have s': "s' = move i (InStore data) (s\<lparr>writing := True\<rparr>)"
    by (auto simp add: body_step_def assign_begin_def split: if_splits)
  show ?thesis
    by (rule batch_inv_move [OF inv i, of "InStore data"]) (simp_all add: s' move_def)
next
  case (InStore data)
  with step have s': "s' = move i (AtStoreAgain data) (assign_end (rts ! i) (JObj data) s)"
    by (simp add: body_step_def)
  show ?thesis
    by (rule batch_inv_move [OF inv i, of "AtStoreAgain data"])
      (simp_all add: s' move_def assign_end_def)
next
  case (AtStoreAgain data)
  with step have s': "s' = move i (InStoreAgain data) (s\<lparr>writing := True\<rparr>)"
    by (auto simp add: body_step_def assign_begin_def split: if_splits)
  show ?thesis
    by (rule batch_inv_move [OF inv i, of "InStoreAgain data"]) (simp_all add: s' move_def)
next
  case (InStoreAgain data)
  with step have s': "s' = move i AtExport (assign_end (rts ! i) (JObj data) s)"
    by (simp add: body_step_def)
  show ?thesis
    by (rule batch_inv_move [OF inv i, of AtExport])
      (simp_all add: s' move_def assign_end_def)
next
  case AtExport
  with step obtain t where s': "s' = move i t s"
    and t: "(\<exists>e. t = AtRecordFailure e) \<or> (\<exists>p. t = AtRecordSuccess p)"
    by (auto simp add: body_step_def split: if_splits outcome.splits)
  from t have "t \<noteq> AtExit" "t \<noteq> AtFetch" "t \<noteq> AtExport"
    by auto
  then show ?thesis
    by (intro batch_inv_move [OF inv i, of t]) (simp_all add: s' move_def)
next
  case (AtRecordFailure err)
  with step have s': "s' = move i AtExit
        (s\<lparr>results := (results s)(rts ! i \<mapsto> ItemFailure err), errorCount := errorCount s + 1\<rparr>)"
    by (simp add: body_step_def)
  show ?thesis
    by (rule batch_inv_record [OF inv i, of "ItemFailure err"]) (simp_all add: s' move_def)
next
  case (AtRecordSuccess path)
  with step have s': "s' = move i AtExit
        (s\<lparr>results := (results s)(rts ! i \<mapsto> ItemSuccess path),
           successCount := successCount s + 1\<rparr>)"
    by (simp add: body_step_def)
  show ?thesis
    by (rule batch_inv_record [OF inv i, of "ItemSuccess path"]) (simp_all add: s' move_def)
next
  case AtExit
  with i show ?thesis by simp
qed

lemma body_step_no_panic:
  assumes inv: "batch_inv rts s"
    and i: "i < length (tasks s)"
  shows "body_step w clock format startDate endDate i (rts ! i) s \<noteq> Inl (GoPanic m)"
proof (cases "tasks s ! i = AtExport")
  case False
  then show ?thesis
    by (cases "tasks s ! i")
      (auto simp add: body_step_def assign_begin_def split: sum.splits if_splits)
next
  case True
  with inv i obtain d where d: "reportData (app s) (rts ! i) = Some (JObj d)"
    unfolding batch_inv_def by blast
  let ?x = "if format = ''csv'' then
              ExportToCSV w (app s) (fst (clock i)) (snd (clock i)) (rts ! i)
            else if format = ''pdf'' then ExportToPDF w (app s) (fst (clock i)) (rts ! i)
            else Ok ''''"
  have "?x \<noteq> Panic m'" for m'
    using ExportToCSV_object_no_panic [OF d] ExportToPDF_no_panic by simp
  then consider p where "?x = Ok p" | e where "?x = Err e"
    by (rule exported_cases)
  then show ?thesis
    using True by cases (simp_all add: body_step_def)
qed

lemma batch_inv_step:
  assumes inv: "batch_inv rts s"
    and step: "batch_step w clock rts format startDate endDate st s = Some (Inr s')"
  shows "batch_inv rts s'"
proof (cases st)
  case (Body i)
  with step have i: "i < length (tasks s)" "tasks s ! i \<noteq> AtExit" "phases (pool_of s) ! i = Running"
    and b: "body_step w clock format startDate endDate i (rts ! i) s = Inr s'"
    by (auto simp add: batch_step_def split: if_splits)
  from inv i b show ?thesis
    by (rule batch_inv_body)
next
  case (Sched e)
  with step obtain p where fired: "fire (length rts) e (pool_of s) = Some p"
    and rel: "case e of Release i \<Rightarrow> i < length (tasks s) \<and> tasks s ! i = AtExit | _ \<Rightarrow> True"
    and s': "s' = s\<lparr>pool_of := p, tasks := (if e = Dispatch then tasks s @ [AtFetch] else tasks s)\<rparr>"
    by (auto simp add: batch_step_def split: if_splits option.splits)
  from inv fired rel show ?thesis
    unfolding s' by (rule batch_inv_sched)
qed

lemma batch_step_no_panic:
  assumes "batch_inv rts s"
  shows "batch_step w clock rts format startDate endDate st s \<noteq> Some (Inl (GoPanic m))"
proof (cases st)
  case (Body i)
  with assms show ?thesis
    using body_step_no_panic [of rts s i w clock format startDate endDate m]
    by (auto simp add: batch_step_def)
next
  case (Sched e)
  then show ?thesis
    by (auto simp add: batch_step_def split: option.splits)
qed

lemma run_batch_inv:
  assumes "batch_inv rts s"
  shows "run_batch w clock rts format startDate endDate sts s \<noteq> Some (Inl (GoPanic m)) \<and>
         (\<forall>s'. run_batch w clock rts format startDate endDate sts s = Some (Inr s') \<longrightarrow>
               batch_inv rts s')"
  using assms
proof (induction sts arbitrary: s)
  case Nil
  then show ?case by simp
next
  case (Cons st sts)
  show ?case
  proof (cases "batch_step w clock rts format startDate endDate st s")
    case None
    then show ?thesis by simp
  next
    case (Some r)
    show ?thesis
    proof (cases r)
      case (Inl c)
      with Some batch_step_no_panic [OF Cons.prems, of w clock format startDate endDate st m]
      show ?thesis by auto
    next
      case (Inr s1)
      with Some Cons.prems have "batch_inv rts s1"
        by (auto intro: batch_inv_step)
      from Cons.IH [OF this] Some Inr show ?thesis by simp
    qed
  qed
qed

lemma count_all: "(\<forall>i < length xs. xs ! i = a) \<Longrightarrow> count (mset xs) a = length xs"
proof (induction xs)
  case Nil
  then show ?case by simp
next
  case (Cons x xs)
  from Cons.prems have "x = a" by auto
  moreover from Cons.prems have "\<forall>i < length xs. xs ! i = a" by auto
  ultimately show ?case using Cons.IH by simp
qed

text \<open>
  What holds of every call, under every schedule and whatever the network and the file
  system answer. The call returns an error exactly when the list of report types is empty
  or the format is neither \<^verbatim>\<open>csv\<close> nor \<^verbatim>\<open>pdf\<close>. No goroutine panics. When the
  call returns a result map, its keys are the requested report types and
  \<^verbatim>\<open>_summary\<close>; every requested report type other than \<^verbatim>\<open>_summary\<close> has its
  outcome entry, a success with a path or a failure with a message; and the entry
  \<^verbatim>\<open>_summary\<close> is the summary, whose successful and failed counts add up to its total,
  the length of the list.
\<close>

lemma batch_call_errors:
  "(\<exists>e. BatchExportReports w a clock tEnd schedule reportTypes format startDate endDate =
          Some (BatchErr e)) \<longleftrightarrow>
   reportTypes = [] \<or> (format \<noteq> ''csv'' \<and> format \<noteq> ''pdf'')"
  by (auto simp add: BatchExportReports_def split: option.splits sum.splits)

lemma batch_never_panics:
  "BatchExportReports w a clock tEnd schedule reportTypes format startDate endDate \<noteq>
     Some (Died (GoPanic m))"
  using run_batch_inv [OF batch_inv_start [of reportTypes a], of w clock format startDate endDate schedule m]
  by (auto simp add: BatchExportReports_def split: option.splits sum.splits)

lemma batch_returned_outcomes:
  assumes "BatchExportReports w a clock tEnd schedule reportTypes format startDate endDate =
             Some (BatchOk res a')"
  shows "reportTypes \<noteq> [] \<and> (format = ''csv'' \<or> format = ''pdf'') \<and>
         dom res = insert ''_summary'' (set reportTypes) \<and>
         (\<forall>rt \<in> set reportTypes. rt \<noteq> ''_summary'' \<longrightarrow>
            (\<exists>path. res rt = Some (ItemSuccess path)) \<or>
            (\<exists>err. res rt = Some (ItemFailure err))) \<and>
         (\<exists>sm. res ''_summary'' = Some (RunSummary sm) \<and>
            sum_total sm = length reportTypes \<and>
            sum_successful sm + sum_failed sm = sum_total sm \<and>
            sum_format sm = format \<and>
            sum_date_range sm = (startDate, endDate))"
proof -
  from assms have valid: "reportTypes \<noteq> []" "format = ''csv'' \<or> format = ''pdf''"
    by (auto simp add: BatchExportReports_def split: if_splits)
  with assms obtain s where
    run: "run_batch w clock reportTypes format startDate endDate schedule (batch_start a) = Some (Inr s)"
    and ret: "caller (pool_of s) = Returned"
    and res: "res = (results s)(''_summary'' \<mapsto> RunSummary
                    \<lparr>sum_total = length reportTypes,
                     sum_successful = successCount s,
                     sum_failed = errorCount s,
                     sum_format = format,
                     sum_date_range = (startDate, endDate),
                     sum_timestamp = fmt_rfc3339 tEnd\<rparr>)"
    by (auto simp add: BatchExportReports_def split: if_splits option.splits sum.splits)
  from run_batch_inv [OF batch_inv_start [of reportTypes a], of w clock format startDate endDate schedule]
    run
  have inv: "batch_inv reportTypes s"
    by blast
  then have pool: "pool_inv (length reportTypes) (pool_of s)"
    and len: "length (tasks s) = length (phases (pool_of s))"
    and pos: "\<forall>i < length (tasks s). phases (pool_of s) ! i = Finished \<longrightarrow> tasks s ! i = AtExit"
    and dom: "\<forall>k. k \<in> dom (results s) \<longleftrightarrow>
                (\<exists>i < length (tasks s). tasks s ! i = AtExit \<and> reportTypes ! i = k)"
    and items: "\<forall>k x. results s k \<noteq> Some (RunSummary x)"
    and cnt: "errorCount s + successCount s = count (mset (tasks s)) AtExit"
    unfolding batch_inv_def by simp_all
  from pool ret have n: "length (phases (pool_of s)) = length reportTypes"
    and none: "Queued \<notin> set (phases (pool_of s))" "Running \<notin> set (phases (pool_of s))"
      "Released \<notin> set (phases (pool_of s))"
    unfolding pool_inv_def by auto
  from none have "\<forall>p \<in> set (phases (pool_of s)). p = Finished"
    by (rule all_finished)
  with len pos have fin: "\<forall>i < length (tasks s). tasks s ! i = AtExit"
    by simp
  from len n have len': "length (tasks s) = length reportTypes"
    by simp
  have keys: "dom (results s) = set reportTypes"
  proof (rule set_eqI)
    fix k
    from dom have "k \<in> dom (results s) \<longleftrightarrow>
        (\<exists>i < length (tasks s). tasks s ! i = AtExit \<and> reportTypes ! i = k)"
      by blast
    also have "\<dots> \<longleftrightarrow> (\<exists>i < length reportTypes. reportTypes ! i = k)"
      using fin len' by auto
    also have "\<dots> \<longleftrightarrow> k \<in> set reportTypes"
      by (auto simp add: in_set_conv_nth)
    finally show "k \<in> dom (results s) \<longleftrightarrow> k \<in> set reportTypes" .
  qed
  from cnt count_all [OF fin] len'
  have total: "successCount s + errorCount s = length reportTypes"
    by simp
  have d: "dom res = insert ''_summary'' (set reportTypes)"
    by (simp add: res keys)
  have e: "\<forall>rt \<in> set reportTypes. rt \<noteq> ''_summary'' \<longrightarrow>
            (\<exists>path. res rt = Some (ItemSuccess path)) \<or>
            (\<exists>err. res rt = Some (ItemFailure err))"
  proof (intro ballI impI)
    fix rt
    assume "rt \<in> set reportTypes" and other: "rt \<noteq> ''_summary''"
    with keys obtain entry where entry: "results s rt = Some entry"
      by blast
    with items have "\<forall>x. entry \<noteq> RunSummary x"
      by auto
    then show "(\<exists>path. res rt = Some (ItemSuccess path)) \<or>
               (\<exists>err. res rt = Some (ItemFailure err))"
      using entry other by (cases entry) (simp_all add: res)
  qed
  show ?thesis
    using valid d e total by (simp add: res)
qed

text \<open>
  A batch never gets stuck: as long as the process lives and the caller has not returned,
  some step can happen.
\<close>

lemma batch_progress:
  assumes run: "run_batch w clock rts format startDate endDate sts (batch_start a) = Some (Inr s)"
    and live: "caller (pool_of s) \<noteq> Returned"
  shows "\<exists>st r. batch_step w clock rts format startDate endDate st s = Some r"
proof -
  from run_batch_inv [OF batch_inv_start [of rts a], of w clock format startDate endDate sts] run
  have inv: "batch_inv rts s"
    by blast
  then have pool: "pool_inv (length rts) (pool_of s)"
    and same: "length (tasks s) = length (phases (pool_of s))"
    unfolding batch_inv_def by simp_all
  let ?p = "pool_of s"
  from pool have slots: "slots ?p = count (mset (phases ?p)) Running"
    and wg: "wg ?p = count (mset (phases ?p)) Queued + count (mset (phases ?p)) Running +
            count (mset (phases ?p)) Released"
    and len: "length (phases ?p) \<le> length rts"
    unfolding pool_inv_def by blast+
  have sched: "\<exists>st r. batch_step w clock rts format startDate endDate st s = Some r"
    if "fire (length rts) e ?p = Some p'" and "\<forall>i. e \<noteq> Release i" for e p'
    using that
    by (intro exI [of _ "Sched e"]) (cases e; simp add: batch_step_def)
  show ?thesis
  proof (cases "caller ?p")
    case Dispatching
    show ?thesis
    proof (cases "length (phases ?p) < length rts")
      case True
      with Dispatching have "fire (length rts) Dispatch ?p =
          Some (?p\<lparr>phases := phases ?p @ [Queued], wg := wg ?p + 1\<rparr>)"
        by (simp add: fire_def)
      then show ?thesis by (rule sched) simp
    next
      case False
      with len Dispatching have "fire (length rts) LoopEnd ?p = Some (?p\<lparr>caller := Waiting\<rparr>)"
        by (simp add: fire_def)
      then show ?thesis by (rule sched) simp
    qed
  next
    case Waiting
    show ?thesis
    proof (cases "wg ?p = 0")
      case True
      with Waiting have "fire (length rts) WaitReturn ?p = Some (?p\<lparr>caller := Returned\<rparr>)"
        by (simp add: fire_def)
      then show ?thesis by (rule sched) simp
    next
      case False
      consider "Running \<in> set (phases ?p)"
        | "Running \<notin> set (phases ?p)" "Released \<in> set (phases ?p)"
        | "Running \<notin> set (phases ?p)" "Released \<notin> set (phases ?p)" "Queued \<in> set (phases ?p)"
      proof -
        have "\<not> (Running \<notin> set (phases ?p) \<and> Released \<notin> set (phases ?p) \<and>
                  Queued \<notin> set (phases ?p))"
        proof
          assume "Running \<notin> set (phases ?p) \<and> Released \<notin> set (phases ?p) \<and>
                  Queued \<notin> set (phases ?p)"
          then have "count (mset (phases ?p)) Queued = 0" "count (mset (phases ?p)) Running = 0"
            "count (mset (phases ?p)) Released = 0"
            by simp_all
          with wg False show False by linarith
        qed
        then show ?thesis using that by blast
      qed
      then show ?thesis
      proof cases
        case 1
        then obtain i where i: "i < length (phases ?p)" "phases ?p ! i = Running"
          by (auto simp add: in_set_conv_nth)
        show ?thesis
        proof (cases "tasks s ! i = AtExit")
          case True
          from 1 have "0 < count (mset (phases ?p)) Running"
            by simp
          with slots have "0 < slots ?p" by linarith
          with i have "fire (length rts) (Release i) ?p =
              Some (?p\<lparr>phases := (phases ?p)[i := Released], slots := slots ?p - 1\<rparr>)"
            by (simp add: fire_def)
          with True i same
          have "batch_step w clock rts format startDate endDate (Sched (Release i)) s =
              Some (Inr (s\<lparr>pool_of := ?p\<lparr>phases := (phases ?p)[i := Released],
                                            slots := slots ?p - 1\<rparr>,
                            tasks := tasks s\<rparr>))"
            by (simp add: batch_step_def)
          then show ?thesis by blast
        next
          case False
          with i same len
          have "batch_step w clock rts format startDate endDate (Body i) s =
              Some (body_step w clock format startDate endDate i (rts ! i) s)"
            by (simp add: batch_step_def)
          then show ?thesis by blast
        qed
      next
        case 2
        then obtain i where i: "i < length (phases ?p)" "phases ?p ! i = Released"
          by (auto simp add: in_set_conv_nth)
        with False have "fire (length rts) (Done i) ?p =
            Some (?p\<lparr>phases := (phases ?p)[i := Finished], wg := wg ?p - 1\<rparr>)"
          by (simp add: fire_def)
        then show ?thesis by (rule sched) simp
      next
        case 3
        then obtain i where i: "i < length (phases ?p)" "phases ?p ! i = Queued"
          by (auto simp add: in_set_conv_nth)
        from 3 have "count (mset (phases ?p)) Running = 0"
          by simp
        with slots have "slots ?p < semaphore_cap"
          by (simp add: semaphore_cap_def)
        with i have "fire (length rts) (Acquire i) ?p =
            Some (?p\<lparr>phases := (phases ?p)[i := Running], slots := slots ?p + 1\<rparr>)"
          by (simp add: fire_def)
        then show ?thesis by (rule sched) simp
      qed
    qed
  next
    case Returned
    with live show ?thesis by simp
  qed
qed

lemmas batch_simps = BatchExportReports_def batch_step_def body_step_def batch_start_def
  assign_begin_def assign_end_def move_def fire_def pool_start_def semaphore_cap_def
  ExportToCSV_def ExportToPDF_def generatePDF_def fmt_stamp_def fmt_rfc3339_def demo_clock_def
  two_world_def two_http_def

text \<open>
  C3. A batch of the two report types \<^verbatim>\<open>zones\<close> and \<^verbatim>\<open>tags\<close> in the format
  \<^verbatim>\<open>csv\<close>, against a firewall that serves both: each goroutine takes a slot and
  fetches its payload; the first enters \<^verbatim>\<open>a.reportData[reportType] = data\<close>, and the
  second enters the same assignment on the same map while the first is inside. The Go
  runtime ends the process with \<^verbatim>\<open>fatal error: concurrent map writes\<close>: the call does
  not return, with no error and with no result map.
\<close>

theorem batch_concurrent_map_writes:
  "distinct [''zones'', ''tags''] \<and>
   fst (GenerateReport two_world demo_app ''zones'' '''' '''') =
     Inr [(''result'', JStr ''<response status=ok></response>'')] \<and>
   fst (GenerateReport two_world demo_app ''tags'' '''' '''') =
     Inr [(''result'', JStr ''<response status=ok></response>'')] \<and>
   BatchExportReports two_world demo_app demo_clock demo_time racing_schedule
       [''zones'', ''tags''] ''csv'' '''' '''' =
     Some (Died (FatalError ''concurrent map writes''))"
  by (simp add: batch_simps fetch_simps racing_schedule_def)

text \<open>
  The same schedule does this to any two report types whose fetches succeed, in either
  format.
\<close>

lemma batch_race:
  assumes "fst (GenerateReport w a r0 startDate endDate) = Inr d0"
    and "fst (GenerateReport w a r1 startDate endDate) = Inr d1"
    and "format = ''csv'' \<or> format = ''pdf''"
  shows "BatchExportReports w a clock tEnd racing_schedule [r0, r1] format startDate endDate =
           Some (Died (FatalError ''concurrent map writes''))"
proof -
  have "run_batch w clock [r0, r1] format startDate endDate racing_schedule (batch_start a) =
          Some (Inl (FatalError ''concurrent map writes''))"
    using assms(1,2)
    by (simp add: racing_schedule_def batch_step_def body_step_def batch_start_def
        assign_begin_def move_def fire_def pool_start_def semaphore_cap_def)
  with assms(3) show ?thesis
    by (auto simp add: BatchExportReports_def)
qed

text \<open>
  Two calls that return. A batch that asks for the one report type \<^verbatim>\<open>_summary\<close>
  returns a map whose only entry is the summary, which counts one failure: the failure
  entry of the requested type has been overwritten. A batch of \<^verbatim>\<open>zones\<close> and an
  unknown report type, whose goroutines assign to the cache one after the other, returns
  one success, one failure and the summary.
\<close>

lemma batch_summary_key_example:
  "BatchExportReports demo_world demo_app demo_clock demo_time failing_schedule
       [''_summary''] ''csv'' '''' '''' =
     Some (BatchOk
       [''_summary'' \<mapsto> RunSummary
            \<lparr>sum_total = 1, sum_successful = 0, sum_failed = 1, sum_format = ''csv'',
             sum_date_range = ('''', ''''), sum_timestamp = ''2024-01-02T15:04:05Z''\<rparr>]
       demo_app)"
  by (simp add: batch_simps fetch_simps demo_simps failing_schedule_def pad2_def pad4_def
      digit_char_def)

lemma batch_example:
  "BatchExportReports demo_world demo_app demo_clock demo_time orderly_schedule
       [''zones'', ''bogus''] ''csv'' '''' '''' =
     Some (BatchOk
       [''bogus'' \<mapsto> ItemFailure ''unknown report type: bogus'',
        ''zones'' \<mapsto> ItemSuccess ''Reports/zones_20240102_150405.csv'',
        ''_summary'' \<mapsto> RunSummary
            \<lparr>sum_total = 2, sum_successful = 1, sum_failed = 1, sum_format = ''csv'',
             sum_date_range = ('''', ''''), sum_timestamp = ''2024-01-02T15:04:05Z''\<rparr>]
       fetched_app)"
  by (simp add: batch_simps fetch_simps demo_simps csv_simps fetched_app_eq orderly_schedule_def
      numeral_2_eq_2)

end
